theory Spec2Isabelle
  imports Complex_Main
begin

section \<open>Cart-to-order core of the storefront backend\<close>

text \<open>
  The theory embeds the cart and order endpoints of \<^verbatim>\<open>src/backend/main.py\<close>
  (\<^verbatim>\<open>get_cart\<close>, \<^verbatim>\<open>add_to_cart\<close>, \<^verbatim>\<open>create_order\<close>) together with the
  pydantic models of \<^verbatim>\<open>src/backend/schemas.py\<close> they use.

  The endpoints talk to a MongoDB database through the module-level name \<^verbatim>\<open>db\<close>,
  which is either \<^verbatim>\<open>None\<close> (not configured) or a database handle. The database is
  modelled as explicit state: the two collections the core touches, in natural
  (insertion) order, the supply of fresh object identifiers, and a schedule saying
  which of the coming store calls raise. Every exception of the source is a value
  \<open>Inl e\<close>; the state after the call is returned next to it, since an endpoint may
  have written before it raises.

  Python integers are unbounded, so quantities are \<open>int\<close>. The order total is a
  Python float that is stored as received and never computed with; it is a
  \<open>real\<close> here.
\<close>

subsection \<open>Data model\<close>

type_synonym oid = nat
  \<comment> \<open>the \<^verbatim>\<open>_id\<close> of a document (an ObjectId); \<^verbatim>\<open>str\<close> of it is one-to-one,
      so responses carry the identifier itself\<close>

text \<open>A line item of a cart: the dict \<^verbatim>\<open>{"product_id": ..., "qty": ...}\<close>.\<close>

record cart_item =
  product_id :: string
  qty :: int

text \<open>\<^verbatim>\<open>class Cart(BaseModel)\<close>: the fields of a cart document besides its \<^verbatim>\<open>_id\<close>.\<close>

record Cart =
  user_id :: string
  items :: "cart_item list"

type_synonym cart_document = "oid \<times> Cart"
  \<comment> \<open>a document of collection \<^verbatim>\<open>cart\<close>\<close>

type_synonym cart_dict = "oid option \<times> Cart"
  \<comment> \<open>a Python dict holding a cart: key \<^verbatim>\<open>_id\<close> is there iff the first component is \<open>Some\<close>\<close>

text \<open>An arbitrary JSON object, for \<^verbatim>\<open>List[dict]\<close> and \<^verbatim>\<open>dict\<close> fields.\<close>

datatype json =
    JNull
  | JBool bool
  | JInt int
  | JStr string
  | JList "json list"
  | JDict "(string \<times> json) list"

type_synonym dict = "(string \<times> json) list"

text \<open>\<^verbatim>\<open>class Order(BaseModel)\<close> of schemas.py.\<close>

record Order =
  order_user_id :: string
  order_items :: "dict list"
  total :: real
  status :: string
  payment_method :: string
  address :: dict

type_synonym order_document = "oid \<times> Order"

text \<open>\<^verbatim>\<open>class CartItemPayload(BaseModel)\<close>; \<^verbatim>\<open>qty\<close> is any integer (default 1).\<close>

record CartItemPayload =
  cip_user_id :: string
  cip_product_id :: string
  cip_qty :: int

text \<open>\<^verbatim>\<open>class CreateOrderPayload(BaseModel)\<close>; it has no status field.\<close>

record CreateOrderPayload =
  cop_user_id :: string
  cop_items :: "dict list"
  cop_total :: real
  cop_payment_method :: string
  cop_address :: dict

datatype error =
    TypeError         \<comment> \<open>\<^verbatim>\<open>db["cart"]\<close> while \<^verbatim>\<open>db\<close> is \<^verbatim>\<open>None\<close>\<close>
  | StoreUnavailable  \<comment> \<open>a store call raises\<close>
  | WriteError        \<comment> \<open>an update that would change the \<^verbatim>\<open>_id\<close> of the matched document\<close>

record database =
  cart_coll :: "cart_document list"
  order_coll :: "order_document list"
  next_oid :: nat
  faults :: "bool list"

text \<open>The returned dict of \<^verbatim>\<open>get_cart\<close>: \<^verbatim>\<open>{user_id, items, id}\<close>.\<close>

record cart_response =
  r_user_id :: string
  r_items :: "cart_item list"
  r_id :: "oid option"

text \<open>The returned dict of \<^verbatim>\<open>create_order\<close>: \<^verbatim>\<open>{order_id, status}\<close>.\<close>

record order_response =
  r_order_id :: oid
  r_status :: string

subsection \<open>The store calls\<close>

text \<open>
  Each call to the store consumes one entry of the fault schedule; \<open>True\<close> means the
  call raises and writes nothing. An exhausted schedule means no more faults.
\<close>

definition store_call :: "database \<Rightarrow> bool \<times> database" where
  "store_call s =
     (case faults s of
        [] \<Rightarrow> (True, s)
      | f # fs \<Rightarrow> (\<not> f, s\<lparr>faults := fs\<rparr>))"

definition matches :: "string \<Rightarrow> cart_document \<Rightarrow> bool" where
  \<comment> \<open>the filter \<^verbatim>\<open>{"user_id": uid}\<close>\<close>
  "matches uid d = (user_id (snd d) = uid)"

text \<open>\<^verbatim>\<open>db["cart"].find_one({"user_id": uid})\<close>: the first matching document.\<close>

definition find_one :: "string \<Rightarrow> database \<Rightarrow> (error + cart_document option) \<times> database" where
  "find_one uid s =
     (let (ok, s1) = store_call s in
      if ok then (Inr (find (matches uid) (cart_coll s1)), s1)
      else (Inl StoreUnavailable, s1))"

text \<open>\<^verbatim>\<open>db["cart"].insert_one(cart)\<close> for a dict without \<^verbatim>\<open>_id\<close>: a fresh identifier
  is generated, written into the dict and returned.\<close>

definition insert_one :: "Cart \<Rightarrow> database \<Rightarrow> (error + oid) \<times> database" where
  "insert_one c s =
     (let (ok, s1) = store_call s in
      if ok then
        (Inr (next_oid s1),
         s1\<lparr>cart_coll := cart_coll s1 @ [(next_oid s1, c)], next_oid := Suc (next_oid s1)\<rparr>)
      else (Inl StoreUnavailable, s1))"

text \<open>
  The update document \<^verbatim>\<open>{"$set": {...}}\<close>. Line 217 of main.py sets every key of the
  dict \<^verbatim>\<open>c\<close> (\<^verbatim>\<open>_id\<close> when the dict came from the store, \<^verbatim>\<open>user_id\<close>, \<^verbatim>\<open>items\<close>);
  line 240 sets \<^verbatim>\<open>items\<close> only.
\<close>

record set_doc =
  set_oid :: "oid option"
  set_user_id :: "string option"
  set_items :: "cart_item list"

definition apply_set :: "set_doc \<Rightarrow> cart_document \<Rightarrow> cart_document" where
  "apply_set u d =
     (fst d,
      \<lparr>user_id = (case set_user_id u of None \<Rightarrow> user_id (snd d) | Some v \<Rightarrow> v),
       items = set_items u\<rparr>)"

fun update_first :: "string \<Rightarrow> set_doc \<Rightarrow> cart_document list \<Rightarrow> cart_document list" where
  "update_first uid u [] = []"
| "update_first uid u (d # ds) =
     (if matches uid d then apply_set u d # ds else d # update_first uid u ds)"

text \<open>
  \<^verbatim>\<open>db["cart"].update_one({"user_id": uid}, {"$set": ...}, upsert=True)\<close>: the first
  matching document gets the fields; setting \<^verbatim>\<open>_id\<close> to another value than the
  document's is refused by the store. With no match a document is inserted, made of
  the filter's \<^verbatim>\<open>user_id\<close> and the fields set, under the \<^verbatim>\<open>_id\<close> set or a fresh one.
\<close>

definition update_one :: "string \<Rightarrow> set_doc \<Rightarrow> database \<Rightarrow> (error + unit) \<times> database" where
  "update_one uid u s =
     (let (ok, s1) = store_call s in
      if \<not> ok then (Inl StoreUnavailable, s1)
      else
        (case find (matches uid) (cart_coll s1) of
           Some d \<Rightarrow>
             (if set_oid u \<noteq> None \<and> set_oid u \<noteq> Some (fst d) then (Inl WriteError, s1)
              else (Inr (), s1\<lparr>cart_coll := update_first uid u (cart_coll s1)\<rparr>))
         | None \<Rightarrow>
             (case set_oid u of
                Some i \<Rightarrow>
                  (Inr (), s1\<lparr>cart_coll := cart_coll s1 @ [apply_set u (i, \<lparr>user_id = uid, items = []\<rparr>)]\<rparr>)
              | None \<Rightarrow>
                  (Inr (),
                   s1\<lparr>cart_coll :=
                        cart_coll s1 @ [apply_set u (next_oid s1, \<lparr>user_id = uid, items = []\<rparr>)],
                      next_oid := Suc (next_oid s1)\<rparr>))))"

subsection \<open>The cart endpoints\<close>

text \<open>
  \<^verbatim>\<open>get_cart\<close> (main.py, lines 194-201). The dict \<^verbatim>\<open>cart\<close> is the document found, or
  a new dict that \<^verbatim>\<open>insert_one\<close> completes with its \<^verbatim>\<open>_id\<close>; the last line moves
  \<^verbatim>\<open>_id\<close> to \<^verbatim>\<open>id\<close> when there is one.
\<close>

definition cart_to_response :: "cart_dict \<Rightarrow> cart_response" where
  "cart_to_response c =
     \<lparr>r_user_id = user_id (snd c), r_items = items (snd c),
      r_id = (case fst c of Some i \<Rightarrow> Some i | None \<Rightarrow> None)\<rparr>"

definition get_cart :: "string \<Rightarrow> database option \<Rightarrow> (error + cart_response) \<times> database option" where
  "get_cart uid db =
     (case db of
        None \<Rightarrow> (Inl TypeError, None)
      | Some s \<Rightarrow>
          (case find_one uid s of
             (Inl e, s1) \<Rightarrow> (Inl e, Some s1)
           | (Inr (Some d), s1) \<Rightarrow> (Inr (cart_to_response (Some (fst d), snd d)), Some s1)
           | (Inr None, s1) \<Rightarrow>
               (case insert_one \<lparr>user_id = uid, items = []\<rparr> s1 of
                  (Inl e, s2) \<Rightarrow> (Inl e, Some s2)
                | (Inr i, s2) \<Rightarrow>
                    (Inr (cart_to_response (Some i, \<lparr>user_id = uid, items = []\<rparr>)), Some s2))))"

text \<open>
  The loop of \<^verbatim>\<open>add_to_cart\<close> (lines 209-214): the first item with the product id gets
  the quantity added and the scan stops; the flag \<^verbatim>\<open>found\<close> is returned with the list.
\<close>

fun bump_first :: "string \<Rightarrow> int \<Rightarrow> cart_item list \<Rightarrow> bool \<times> cart_item list" where
  "bump_first pid q [] = (False, [])"
| "bump_first pid q (it # its) =
     (if product_id it = pid then (True, it\<lparr>qty := qty it + q\<rparr> # its)
      else (let (found, its') = bump_first pid q its in (found, it # its')))"

text \<open>Lines 209-216 (\<^verbatim>\<open># upsert product\<close>): the loop, then the append when nothing was found.\<close>

definition upsert_product :: "string \<Rightarrow> int \<Rightarrow> cart_item list \<Rightarrow> cart_item list" where
  "upsert_product pid q its =
     (let (found, its') = bump_first pid q its in
      if \<not> found then its' @ [\<lparr>product_id = pid, qty = q\<rparr>] else its')"

text \<open>Lines 205-207: read the user's cart, or start from an empty dict.\<close>

definition add_read :: "CartItemPayload \<Rightarrow> database \<Rightarrow> (error + cart_dict) \<times> database" where
  "add_read body s =
     (case find_one (cip_user_id body) s of
        (Inl e, s1) \<Rightarrow> (Inl e, s1)
      | (Inr (Some d), s1) \<Rightarrow> (Inr (Some (fst d), snd d), s1)
      | (Inr None, s1) \<Rightarrow> (Inr (None, \<lparr>user_id = cip_user_id body, items = []\<rparr>), s1))"

text \<open>Lines 209-216 on the dict \<^verbatim>\<open>c\<close>.\<close>

definition add_merge :: "CartItemPayload \<Rightarrow> cart_dict \<Rightarrow> cart_dict" where
  "add_merge body c =
     (fst c, (snd c)\<lparr>items := upsert_product (cip_product_id body) (cip_qty body) (items (snd c))\<rparr>)"

text \<open>Line 217: write the whole dict back, inserting when the user has no document.\<close>

definition add_write :: "CartItemPayload \<Rightarrow> cart_dict \<Rightarrow> database \<Rightarrow> (error + unit) \<times> database" where
  "add_write body c s =
     update_one (cip_user_id body)
       \<lparr>set_oid = fst c, set_user_id = Some (user_id (snd c)), set_items = items (snd c)\<rparr> s"

text \<open>\<^verbatim>\<open>add_to_cart\<close> (lines 203-218); the response \<^verbatim>\<open>{"ok": True}\<close> is the unit.\<close>

definition add_to_cart :: "CartItemPayload \<Rightarrow> database option \<Rightarrow> (error + unit) \<times> database option" where
  "add_to_cart body db =
     (case db of
        None \<Rightarrow> (Inl TypeError, None)
      | Some s \<Rightarrow>
          (case add_read body s of
             (Inl e, s1) \<Rightarrow> (Inl e, Some s1)
           | (Inr c, s1) \<Rightarrow>
               (case add_write body (add_merge body c) s1 of
                  (Inl e, s2) \<Rightarrow> (Inl e, Some s2)
                | (Inr _, s2) \<Rightarrow> (Inr (), Some s2))))"

subsection \<open>Order placement\<close>

text \<open>
  \<^verbatim>\<open>OrderSchema(user_id=..., items=..., total=..., payment_method=..., address=...)\<close>:
  \<^verbatim>\<open>status\<close> is not passed, so it takes the default \<^verbatim>\<open>"new"\<close> of schemas.py.
\<close>

definition OrderSchema :: "string \<Rightarrow> dict list \<Rightarrow> real \<Rightarrow> string \<Rightarrow> dict \<Rightarrow> Order" where
  "OrderSchema uid its tot pm addr =
     \<lparr>order_user_id = uid, order_items = its, total = tot, status = ''new'',
      payment_method = pm, address = addr\<rparr>"

text \<open>
  Modelled from the spec: \<^verbatim>\<open>create_document\<close> of module \<^verbatim>\<open>database\<close>, which is
  imported by main.py and is not among the sources. The spec says of it: the order is
  persisted, obtaining a newly generated identifier; order creation is a single atomic
  write at the store level; an unreachable or unconfigured store is a store error that
  propagates to the caller.
\<close>

definition create_document :: "Order \<Rightarrow> database option \<Rightarrow> (error + oid) \<times> database option" where
  "create_document ord db =
     (case db of
        None \<Rightarrow> (Inl StoreUnavailable, None)
      | Some s \<Rightarrow>
          (let (ok, s1) = store_call s in
           if ok then
             (Inr (next_oid s1),
              Some (s1\<lparr>order_coll := order_coll s1 @ [(next_oid s1, ord)],
                       next_oid := Suc (next_oid s1)\<rparr>))
           else (Inl StoreUnavailable, Some s1)))"

text \<open>
  \<^verbatim>\<open>create_order\<close> (lines 229-241): build the order, persist it, then empty the
  user's cart (line 240); \<^verbatim>\<open>db["cart"]\<close> raises when \<^verbatim>\<open>db\<close> is \<^verbatim>\<open>None\<close>.
\<close>

definition create_order ::
    "CreateOrderPayload \<Rightarrow> database option \<Rightarrow> (error + order_response) \<times> database option" where
  "create_order body db =
     (case create_document
             (OrderSchema (cop_user_id body) (cop_items body) (cop_total body)
                (cop_payment_method body) (cop_address body)) db of
        (Inl e, db1) \<Rightarrow> (Inl e, db1)
      | (Inr oid, db1) \<Rightarrow>
          (case db1 of
             None \<Rightarrow> (Inl TypeError, None)
           | Some s1 \<Rightarrow>
               (case update_one (cop_user_id body)
                       \<lparr>set_oid = None, set_user_id = None, set_items = []\<rparr> s1 of
                  (Inl e, s2) \<Rightarrow> (Inl e, Some s2)
                | (Inr _, s2) \<Rightarrow> (Inr \<lparr>r_order_id = oid, r_status = ''new''\<rparr>, Some s2))))"

subsection \<open>Sequences of requests\<close>

datatype request =
    GetCart string
  | AddItem CartItemPayload
  | CreateOrder CreateOrderPayload

text \<open>One request against the store; the response goes to the caller, the store stays.\<close>

fun serve :: "request \<Rightarrow> database option \<Rightarrow> database option" where
  "serve (GetCart uid) db = snd (get_cart uid db)"
| "serve (AddItem body) db = snd (add_to_cart body db)"
| "serve (CreateOrder body) db = snd (create_order body db)"

fun serve_all :: "request list \<Rightarrow> database option \<Rightarrow> database option" where
  "serve_all [] db = db"
| "serve_all (r # rs) db = serve_all rs (serve r db)"

text \<open>The store before any request, with the faults to come.\<close>

definition empty_store :: "bool list \<Rightarrow> database" where
  "empty_store fs = \<lparr>cart_coll = [], order_coll = [], next_oid = 0, faults = fs\<rparr>"

text \<open>Reading back: the user's cart document, and an order by its identifier.\<close>

definition cart_of :: "string \<Rightarrow> database \<Rightarrow> cart_document option" where
  "cart_of uid s = find (matches uid) (cart_coll s)"

definition order_by_id :: "oid \<Rightarrow> database \<Rightarrow> order_document option" where
  "order_by_id i s = find (\<lambda>d. fst d = i) (order_coll s)"

subsection \<open>Overlapping adds\<close>

text \<open>
  Requests of different callers may overlap: \<^verbatim>\<open>add_to_cart\<close> is a plain \<^verbatim>\<open>def\<close>
  endpoint, holds no lock and makes two separate store calls, the read of line 205 and
  the write of line 217, each atomic at the store. A request in flight is either about to
  read, or holds the dict it read and is about to write, or has returned.
\<close>

datatype phase =
    Reading
  | Writing cart_dict
  | Finished "error + unit"

text \<open>The next store call of a request in flight, with the local work that follows the read.\<close>

fun add_step :: "CartItemPayload \<Rightarrow> phase \<times> database \<Rightarrow> phase \<times> database" where
  "add_step body (Reading, s) =
     (case add_read body s of
        (Inl e, s1) \<Rightarrow> (Finished (Inl e), s1)
      | (Inr c, s1) \<Rightarrow> (Writing (add_merge body c), s1))"
| "add_step body (Writing c, s) =
     (case add_write body c s of
        (Inl e, s2) \<Rightarrow> (Finished (Inl e), s2)
      | (Inr _, s2) \<Rightarrow> (Finished (Inr ()), s2))"
| "add_step body (Finished r, s) = (Finished r, s)"

text \<open>
  Two adds in flight against one store. The schedule says whose store call comes next:
  \<open>False\<close> for the first request, \<open>True\<close> for the second.
\<close>

fun run_two ::
    "CartItemPayload \<Rightarrow> CartItemPayload \<Rightarrow> bool list \<Rightarrow> phase \<times> phase \<times> database \<Rightarrow>
     phase \<times> phase \<times> database" where
  "run_two b1 b2 [] st = st"
| "run_two b1 b2 (k # ks) (p1, p2, s) =
     (if k then (case add_step b2 (p2, s) of (p2', s') \<Rightarrow> run_two b1 b2 ks (p1, p2', s'))
      else (case add_step b1 (p1, s) of (p1', s') \<Rightarrow> run_two b1 b2 ks (p1', p2, s')))"

text \<open>A schedule that lets both requests make their two store calls, and the two
  schedules among them in which one request returns before the other starts.\<close>

definition complete :: "bool list \<Rightarrow> bool" where
  "complete sch = (length sch = 4 \<and> length (filter (\<lambda>k. k) sch) = 2)"

definition serial :: "bool list \<Rightarrow> bool" where
  "serial sch = (sch = [False, False, True, True] \<or> sch = [True, True, False, False])"

subsection \<open>Notions used in the properties\<close>

text \<open>
  The cart invariant in the specification's words: no two items share a product id, and
  every quantity is at least 1. Its two halves are named apart.
\<close>

definition unique_products :: "Cart \<Rightarrow> bool" where
  "unique_products c = distinct (map product_id (items c))"

definition positive_qtys :: "Cart \<Rightarrow> bool" where
  "positive_qtys c = (\<forall>it\<in>set (items c). 1 \<le> qty it)"

definition cart_invariant :: "Cart \<Rightarrow> bool" where
  "cart_invariant c = (unique_products c \<and> positive_qtys c)"

text \<open>At most one cart document per user id.\<close>

definition one_cart_per_user :: "database \<Rightarrow> bool" where
  "one_cart_per_user s = distinct (map (\<lambda>d. user_id (snd d)) (cart_coll s))"

text \<open>Every order identifier in use is below the next identifier to be generated.\<close>

definition order_ids_fresh :: "database \<Rightarrow> bool" where
  "order_ids_fresh s = (\<forall>d\<in>set (order_coll s). fst d < next_oid s)"

text \<open>
  What a request may do to the cart collection, in one shape for the three endpoints:
  the user it is about, what becomes of that user's items, and the collection with the
  user's first document rewritten, or a document added under identifier \<open>i\<close> when the
  user has none.
\<close>

fun user_of :: "request \<Rightarrow> string" where
  "user_of (GetCart uid) = uid"
| "user_of (AddItem body) = cip_user_id body"
| "user_of (CreateOrder body) = cop_user_id body"

fun items_after :: "request \<Rightarrow> cart_item list \<Rightarrow> cart_item list" where
  "items_after (GetCart uid) its = its"
| "items_after (AddItem body) its = upsert_product (cip_product_id body) (cip_qty body) its"
| "items_after (CreateOrder body) its = []"

fun put_cart ::
    "string \<Rightarrow> (cart_item list \<Rightarrow> cart_item list) \<Rightarrow> oid \<Rightarrow> cart_document list \<Rightarrow> cart_document list" where
  "put_cart uid f i [] = [(i, \<lparr>user_id = uid, items = f []\<rparr>)]"
| "put_cart uid f i (d # ds) =
     (if matches uid d then (fst d, \<lparr>user_id = uid, items = f (items (snd d))\<rparr>) # ds
      else d # put_cart uid f i ds)"

text \<open>The next \<open>n\<close> store calls do not raise.\<close>

definition available :: "nat \<Rightarrow> database \<Rightarrow> bool" where
  "available n s = (\<forall>f\<in>set (take n (faults s)). \<not> f)"

section \<open>Properties\<close>

subsection \<open>Store calls and the merge loop\<close>

lemma store_call_frame:
  "store_call s = (ok, s1) \<Longrightarrow>
     cart_coll s1 = cart_coll s \<and> order_coll s1 = order_coll s \<and> next_oid s1 = next_oid s"
  by (auto simp: store_call_def split: list.splits)

lemma bump_first_found:
  "\<forall>x\<in>set pre. product_id x \<noteq> pid \<Longrightarrow> product_id it = pid \<Longrightarrow>
     bump_first pid q (pre @ it # post) = (True, pre @ it\<lparr>qty := qty it + q\<rparr> # post)"
  by (induction pre) auto

lemma bump_first_not_found:
  "\<forall>x\<in>set its. product_id x \<noteq> pid \<Longrightarrow> bump_first pid q its = (False, its)"
  by (induction its) auto

lemma upsert_product_found:
  "\<forall>x\<in>set pre. product_id x \<noteq> pid \<Longrightarrow> product_id it = pid \<Longrightarrow>
     upsert_product pid q (pre @ it # post) = pre @ it\<lparr>qty := qty it + q\<rparr> # post"
  by (simp add: upsert_product_def bump_first_found)

lemma upsert_product_not_found:
  "\<forall>x\<in>set its. product_id x \<noteq> pid \<Longrightarrow>
     upsert_product pid q its = its @ [\<lparr>product_id = pid, qty = q\<rparr>]"
  by (simp add: upsert_product_def bump_first_not_found)

lemma add_to_cart_success:
  assumes "add_to_cart body (Some s) = (Inr r, db')"
  shows "\<exists>s'. db' = Some s' \<and> order_coll s' = order_coll s \<and>
           cart_coll s' =
             (case find (matches (cip_user_id body)) (cart_coll s) of
                Some d \<Rightarrow>
                  update_first (cip_user_id body)
                    \<lparr>set_oid = Some (fst d), set_user_id = Some (user_id (snd d)),
                     set_items = upsert_product (cip_product_id body) (cip_qty body) (items (snd d))\<rparr>
                    (cart_coll s)
              | None \<Rightarrow>
                  cart_coll s @
                    [(next_oid s,
                      \<lparr>user_id = cip_user_id body,
                       items = upsert_product (cip_product_id body) (cip_qty body) []\<rparr>)])"
  using assms
  by (auto simp: add_to_cart_def add_read_def add_write_def add_merge_def find_one_def
      update_one_def apply_set_def
      split: prod.splits sum.splits option.splits if_splits dest!: store_call_frame)

lemma find_update_first:
  "find (matches uid) ds = Some d \<Longrightarrow> matches uid (apply_set u d) \<Longrightarrow>
     find (matches uid) (update_first uid u ds) = Some (apply_set u d)"
  by (induction ds) (auto split: if_splits)


lemma find_matchesD:
  "find (matches uid) ds = Some d \<Longrightarrow> user_id (snd d) = uid \<and> d \<in> set ds"
  by (induction ds) (auto simp: matches_def split: if_splits)

lemma store_call_available:
  "available (Suc n) s \<Longrightarrow> store_call s = (True, s\<lparr>faults := tl (faults s)\<rparr>)"
  by (cases "faults s") (auto simp: store_call_def available_def)

lemma available_drop:
  "available (Suc n) s \<Longrightarrow> available n (s\<lparr>faults := tl (faults s)\<rparr>)"
  by (cases "faults s") (auto simp: available_def)

lemma available_mono:
  "available n s \<Longrightarrow> m \<le> n \<Longrightarrow> available m s"
  by (auto simp: available_def dest: set_take_subset_set_take[THEN subsetD])

lemma add_to_cart_available:
  assumes "available 2 s"
  shows "\<exists>db'. add_to_cart body (Some s) = (Inr (), db')"
proof -
  let ?s1 = "s\<lparr>faults := tl (faults s)\<rparr>"
  from assms have a: "available (Suc 1) s"
    by (simp add: numeral_2_eq_2)
  have s1: "store_call s = (True, ?s1)"
    by (rule store_call_available[OF a])
  have "available (Suc 0) ?s1"
    using available_drop[OF a] by simp
  then have s2: "store_call ?s1 = (True, ?s1\<lparr>faults := tl (faults ?s1)\<rparr>)"
    by (rule store_call_available)
  show ?thesis
    using s1 s2
    by (auto simp: add_to_cart_def add_read_def add_write_def add_merge_def find_one_def
        update_one_def split: option.splits)
qed

subsection \<open>Quantities accumulate\<close>

text \<open>
  Claim C1. When the user's cart already holds an entry for the product, a successful
  \<^verbatim>\<open>add_to_cart\<close> adds the requested quantity to the first such entry and leaves
  every other entry as it was (so with several entries of that product only the first
  changes). The product ids of the line items, and so their number, stay the same; when
  the product ids of the cart were distinct, the cart afterwards has exactly one line
  item for the product, with the old quantity plus the requested one.
\<close>

theorem add_to_cart_accumulates:
  assumes cart: "cart_of (cip_user_id body) s = Some (i, c)"
    and split: "items c = pre @ it # post"
    and first: "\<forall>x\<in>set pre. product_id x \<noteq> cip_product_id body"
    and hit: "product_id it = cip_product_id body"
    and run: "add_to_cart body (Some s) = (Inr r, db')"
  shows "\<exists>s'. db' = Some s' \<and>
           cart_of (cip_user_id body) s' =
             Some (i, c\<lparr>items := pre @ it\<lparr>qty := qty it + cip_qty body\<rparr> # post\<rparr>) \<and>
           (\<forall>c'. cart_of (cip_user_id body) s' = Some (i, c') \<longrightarrow>
              map product_id (items c') = map product_id (items c) \<and>
              length (items c') = length (items c) \<and>
              (distinct (map product_id (items c)) \<longrightarrow>
                 filter (\<lambda>x. product_id x = cip_product_id body) (items c') =
                   [\<lparr>product_id = cip_product_id body, qty = qty it + cip_qty body\<rparr>]))"
proof -
  let ?uid = "cip_user_id body" and ?pid = "cip_product_id body" and ?q = "cip_qty body"
  let ?its = "pre @ it\<lparr>qty := qty it + ?q\<rparr> # post"
  let ?u = "\<lparr>set_oid = Some i, set_user_id = Some (user_id c), set_items = ?its\<rparr>"
  from cart have found: "find (matches ?uid) (cart_coll s) = Some (i, c)"
    by (simp add: cart_of_def)
  then have uid: "user_id c = ?uid"
    by (auto dest: find_matchesD)
  have ups: "upsert_product ?pid ?q (items c) = ?its"
    using split first hit by (simp add: upsert_product_found)
  from add_to_cart_success[OF run] found ups obtain s' where
    s': "db' = Some s'" "cart_coll s' = update_first ?uid ?u (cart_coll s)"
    by auto
  have "matches ?uid (apply_set ?u (i, c))"
    by (simp add: matches_def apply_set_def uid)
  from find_update_first[OF found this] s'(2)
  have res: "cart_of ?uid s' = Some (i, c\<lparr>items := ?its\<rparr>)"
    by (simp add: cart_of_def apply_set_def)
  have one: "filter (\<lambda>x. product_id x = ?pid) ?its = [\<lparr>product_id = ?pid, qty = qty it + ?q\<rparr>]"
    if "distinct (map product_id (items c))"
  proof -
    from that split hit have "?pid \<notin> product_id ` set post"
      by auto
    then have "\<forall>x\<in>set post. product_id x \<noteq> ?pid"
      by (auto simp: image_iff)
    with first hit show ?thesis by simp
  qed
  show ?thesis
    using s'(1) res one by (simp add: split)
qed

theorem add_to_cart_accumulates_witness:
  "\<exists>s'. add_to_cart \<lparr>cip_user_id = ''u1'', cip_product_id = ''p1'', cip_qty = 3\<rparr>
           (Some \<lparr>cart_coll = [(0, \<lparr>user_id = ''u1'', items = [\<lparr>product_id = ''p0'', qty = 1\<rparr>, \<lparr>product_id = ''p1'', qty = 2\<rparr>]\<rparr>)],
                  order_coll = [], next_oid = 1, faults = []\<rparr>) = (Inr (), Some s') \<and>
        cart_of ''u1'' s' = Some (0, \<lparr>user_id = ''u1'', items = [\<lparr>product_id = ''p0'', qty = 1\<rparr>, \<lparr>product_id = ''p1'', qty = 5\<rparr>]\<rparr>)"
proof -
  let ?body = "\<lparr>cip_user_id = ''u1'', cip_product_id = ''p1'', cip_qty = 3\<rparr>"
  let ?c = "\<lparr>user_id = ''u1'', items = [\<lparr>product_id = ''p0'', qty = 1\<rparr>, \<lparr>product_id = ''p1'', qty = 2\<rparr>]\<rparr>"
  let ?s = "\<lparr>cart_coll = [(0, ?c)], order_coll = [], next_oid = 1, faults = []\<rparr>"
  obtain db' where run: "add_to_cart ?body (Some ?s) = (Inr (), db')"
    using add_to_cart_available[of ?s ?body] by (auto simp: available_def)
  have cart: "cart_of (cip_user_id ?body) ?s = Some (0, ?c)"
    by (simp add: cart_of_def matches_def)
  have split: "items ?c = [\<lparr>product_id = ''p0'', qty = 1\<rparr>] @ \<lparr>product_id = ''p1'', qty = 2\<rparr> # []"
    by simp
  have first: "\<forall>x\<in>set [\<lparr>product_id = ''p0'', qty = 1\<rparr>]. product_id x \<noteq> cip_product_id ?body"
    by simp
  have hit: "product_id \<lparr>product_id = ''p1'', qty = 2\<rparr> = cip_product_id ?body"
    by simp
  from add_to_cart_accumulates[OF cart split first hit run]
  show ?thesis using run by auto
qed

subsection \<open>What an add leaves alone\<close>

lemma bump_first_flag:
  "fst (bump_first pid q its) = (pid \<in> product_id ` set its)"
  by (induction its) (auto split: prod.splits)

lemma bump_first_others:
  "filter (\<lambda>x. product_id x \<noteq> pid) (snd (bump_first pid q its)) =
     filter (\<lambda>x. product_id x \<noteq> pid) its"
  by (induction its) (auto split: prod.splits)

lemma upsert_product_others:
  "filter (\<lambda>x. product_id x \<noteq> pid) (upsert_product pid q its) =
     filter (\<lambda>x. product_id x \<noteq> pid) its"
  using bump_first_others[of pid q its]
  by (auto simp: upsert_product_def split: prod.splits)

lemma find_append_new:
  "find (matches uid) ds = None \<Longrightarrow> matches uid d \<Longrightarrow> find (matches uid) (ds @ [d]) = Some d"
  by (induction ds) (auto split: if_splits)

lemma update_one_success:
  assumes "update_one uid u s = (Inr x, s')"
  shows "order_coll s' = order_coll s \<and>
         cart_coll s' =
           (case find (matches uid) (cart_coll s) of
              Some d \<Rightarrow> update_first uid u (cart_coll s)
            | None \<Rightarrow>
                cart_coll s @
                  [apply_set u
                     (case set_oid u of Some i \<Rightarrow> i | None \<Rightarrow> next_oid s,
                      \<lparr>user_id = uid, items = []\<rparr>)])"
  using assms
  by (auto simp: update_one_def split: prod.splits option.splits if_splits
      dest!: store_call_frame)

text \<open>
  Claim C6. After a successful \<^verbatim>\<open>add_to_cart\<close> the user's cart document keeps its
  identifier and its \<^verbatim>\<open>user_id\<close>, and the entries of every other product keep their
  values and their order. When no entry has the product id, the new entry
  \<^verbatim>\<open>{product_id, qty}\<close> is appended at the end; a user without a cart document gets
  one holding just that entry.
\<close>

theorem add_to_cart_frame:
  assumes run: "add_to_cart body (Some s) = (Inr r, db')"
  shows "\<exists>s'. db' = Some s' \<and>
           (case cart_of (cip_user_id body) s of
              Some d \<Rightarrow>
                (\<exists>c'. cart_of (cip_user_id body) s' = Some (fst d, c') \<and>
                   user_id c' = user_id (snd d) \<and>
                   filter (\<lambda>x. product_id x \<noteq> cip_product_id body) (items c') =
                     filter (\<lambda>x. product_id x \<noteq> cip_product_id body) (items (snd d)) \<and>
                   (cip_product_id body \<notin> product_id ` set (items (snd d)) \<longrightarrow>
                      items c' =
                        items (snd d) @
                          [\<lparr>product_id = cip_product_id body, qty = cip_qty body\<rparr>]))
            | None \<Rightarrow>
                cart_of (cip_user_id body) s' =
                  Some (next_oid s,
                        \<lparr>user_id = cip_user_id body,
                         items = [\<lparr>product_id = cip_product_id body, qty = cip_qty body\<rparr>]\<rparr>))"
proof (cases "find (matches (cip_user_id body)) (cart_coll s)")
  case None
  with add_to_cart_success[OF run] obtain s' where
    s': "db' = Some s'"
      "cart_coll s' = cart_coll s @
         [(next_oid s, \<lparr>user_id = cip_user_id body,
             items = upsert_product (cip_product_id body) (cip_qty body) []\<rparr>)]"
    by auto
  have "cart_of (cip_user_id body) s' =
          Some (next_oid s, \<lparr>user_id = cip_user_id body,
             items = upsert_product (cip_product_id body) (cip_qty body) []\<rparr>)"
    unfolding cart_of_def s'(2)
    by (rule find_append_new[OF None]) (simp add: matches_def)
  with s'(1) None show ?thesis
    by (simp add: cart_of_def upsert_product_def)
next
  case (Some d)
  let ?uid = "cip_user_id body" and ?pid = "cip_product_id body" and ?q = "cip_qty body"
  let ?u = "\<lparr>set_oid = Some (fst d), set_user_id = Some (user_id (snd d)),
             set_items = upsert_product ?pid ?q (items (snd d))\<rparr>"
  from add_to_cart_success[OF run] Some obtain s' where
    s': "db' = Some s'" "cart_coll s' = update_first ?uid ?u (cart_coll s)"
    by auto
  from Some have uid: "user_id (snd d) = ?uid"
    by (auto dest: find_matchesD)
  then have "matches ?uid (apply_set ?u d)"
    by (simp add: matches_def apply_set_def)
  from find_update_first[OF Some this] s'(2)
  have res: "cart_of ?uid s' =
      Some (fst d, \<lparr>user_id = user_id (snd d), items = upsert_product ?pid ?q (items (snd d))\<rparr>)"
    by (simp add: cart_of_def apply_set_def)
  have app: "upsert_product ?pid ?q (items (snd d)) =
      items (snd d) @ [\<lparr>product_id = ?pid, qty = ?q\<rparr>]"
    if "?pid \<notin> product_id ` set (items (snd d))"
    using that by (intro upsert_product_not_found) (auto simp: image_iff)
  show ?thesis
    using s'(1) Some res app
    by (simp add: cart_of_def upsert_product_others)
qed

theorem add_to_cart_frame_witness:
  "\<exists>s'. add_to_cart \<lparr>cip_user_id = ''u1'', cip_product_id = ''p2'', cip_qty = 4\<rparr>
           (Some \<lparr>cart_coll = [(0, \<lparr>user_id = ''u1'', items = [\<lparr>product_id = ''p0'', qty = 1\<rparr>, \<lparr>product_id = ''p1'', qty = 2\<rparr>]\<rparr>)],
                  order_coll = [], next_oid = 1, faults = []\<rparr>) = (Inr (), Some s') \<and>
        cart_of ''u1'' s' =
          Some (0, \<lparr>user_id = ''u1'',
                    items = [\<lparr>product_id = ''p0'', qty = 1\<rparr>, \<lparr>product_id = ''p1'', qty = 2\<rparr>,
                             \<lparr>product_id = ''p2'', qty = 4\<rparr>]\<rparr>)"
proof -
  let ?body = "\<lparr>cip_user_id = ''u1'', cip_product_id = ''p2'', cip_qty = 4\<rparr>"
  let ?c = "\<lparr>user_id = ''u1'', items = [\<lparr>product_id = ''p0'', qty = 1\<rparr>, \<lparr>product_id = ''p1'', qty = 2\<rparr>]\<rparr>"
  let ?s = "\<lparr>cart_coll = [(0, ?c)], order_coll = [], next_oid = 1, faults = []\<rparr>"
  obtain db' where run: "add_to_cart ?body (Some ?s) = (Inr (), db')"
    using add_to_cart_available[of ?s ?body] by (auto simp: available_def)
  have cart: "cart_of (cip_user_id ?body) ?s = Some (0, ?c)"
    by (simp add: cart_of_def matches_def)
  from add_to_cart_frame[OF run] cart
  show ?thesis using run by auto
qed

subsection \<open>Fetching a cart\<close>

lemma get_cart_found:
  assumes "available 1 s" and "cart_of uid s = Some d"
  shows "get_cart uid (Some s) =
           (Inr \<lparr>r_user_id = user_id (snd d), r_items = items (snd d), r_id = Some (fst d)\<rparr>,
            Some (s\<lparr>faults := tl (faults s)\<rparr>))"
proof -
  from assms(1) have "store_call s = (True, s\<lparr>faults := tl (faults s)\<rparr>)"
    by (intro store_call_available[of 0]) simp
  with assms(2) show ?thesis
    by (simp add: get_cart_def find_one_def cart_of_def cart_to_response_def)
qed

lemma get_cart_absent:
  assumes "available 2 s" and "cart_of uid s = None"
  shows "get_cart uid (Some s) =
           (Inr \<lparr>r_user_id = uid, r_items = [], r_id = Some (next_oid s)\<rparr>,
            Some (s\<lparr>cart_coll := cart_coll s @ [(next_oid s, \<lparr>user_id = uid, items = []\<rparr>)],
                    next_oid := Suc (next_oid s), faults := tl (tl (faults s))\<rparr>))"
proof -
  let ?s1 = "s\<lparr>faults := tl (faults s)\<rparr>"
  from assms(1) have a: "available (Suc 1) s"
    by (simp add: numeral_2_eq_2)
  have s1: "store_call s = (True, ?s1)"
    by (rule store_call_available[OF a])
  have "available (Suc 0) ?s1"
    using available_drop[OF a] by simp
  then have s2: "store_call ?s1 = (True, ?s1\<lparr>faults := tl (faults ?s1)\<rparr>)"
    by (rule store_call_available)
  show ?thesis
    using s1 s2 assms(2)
    by (simp add: get_cart_def find_one_def insert_one_def cart_of_def cart_to_response_def)
qed

lemma store_call_fails:
  "store_call s = (False, s1) \<Longrightarrow> \<not> available (Suc n) s"
  by (cases "faults s") (auto simp: store_call_def available_def)

lemma store_call_passes:
  "store_call s = (True, s1) \<Longrightarrow> s1 = s\<lparr>faults := tl (faults s)\<rparr>"
  by (cases "faults s") (auto simp: store_call_def)

lemma not_available_drop:
  "\<not> available n (s\<lparr>faults := tl (faults s)\<rparr>) \<Longrightarrow> \<not> available (Suc n) s"
  by (cases "faults s") (auto simp: available_def)

lemma get_cart_fails:
  assumes "get_cart uid db = (Inl e, db')"
  shows "db = None \<and> e = TypeError \<or>
         (\<exists>s. db = Some s \<and> e = StoreUnavailable \<and> \<not> available 2 s)"
proof (cases db)
  case None
  with assms show ?thesis by (simp add: get_cart_def)
next
  case (Some s)
  obtain ok s1 where c1: "store_call s = (ok, s1)" by (cases "store_call s")
  show ?thesis
  proof (cases ok)
    case False
    with c1 have "\<not> available (Suc 1) s" by (auto dest: store_call_fails)
    moreover from assms Some c1 False have "e = StoreUnavailable"
      by (auto simp: get_cart_def find_one_def)
    ultimately show ?thesis using Some by (simp add: numeral_2_eq_2)
  next
    case True
    with c1 have s1: "s1 = s\<lparr>faults := tl (faults s)\<rparr>" by (auto dest: store_call_passes)
    obtain ok2 s2 where c2: "store_call s1 = (ok2, s2)" by (cases "store_call s1")
    from assms Some c1 True c2 have bad: "\<not> ok2 \<and> e = StoreUnavailable"
      by (auto simp: get_cart_def find_one_def insert_one_def
          split: option.splits if_splits)
    with c2 have "\<not> available (Suc 0) s1" by (auto dest: store_call_fails)
    with s1 have "\<not> available (Suc (Suc 0)) s" using not_available_drop[of "Suc 0" s] by simp
    with bad Some show ?thesis by (simp add: numeral_2_eq_2)
  qed
qed

lemma get_cart_success:
  assumes "get_cart uid (Some s) = (Inr r, db')"
  shows "r = (case cart_of uid s of
                Some d \<Rightarrow> \<lparr>r_user_id = user_id (snd d), r_items = items (snd d), r_id = Some (fst d)\<rparr>
              | None \<Rightarrow> \<lparr>r_user_id = uid, r_items = [], r_id = Some (next_oid s)\<rparr>)"
  using assms
  by (auto simp: get_cart_def find_one_def insert_one_def cart_of_def cart_to_response_def
      split: prod.splits option.splits if_splits dest!: store_call_frame)

text \<open>
  Claim C5. \<^verbatim>\<open>get_cart\<close> fails only when the store is unavailable: \<^verbatim>\<open>db\<close> is
  \<^verbatim>\<open>None\<close>, or one of its (at most two) store calls raises; the error is the store's.
  When the next two store calls go through, an existing cart is returned as it is and the
  store is left alone, and for a user without a cart the empty cart
  \<^verbatim>\<open>{user_id, items: []}\<close> is inserted and returned with its new identifier.
\<close>

theorem get_cart_get_or_create:
  "(get_cart uid db = (Inl e, db') \<longrightarrow>
      db = None \<and> e = TypeError \<or>
      (\<exists>s. db = Some s \<and> e = StoreUnavailable \<and> \<not> available 2 s)) \<and>
   (available 2 s \<longrightarrow>
      (case cart_of uid s of
         Some d \<Rightarrow>
           get_cart uid (Some s) =
             (Inr \<lparr>r_user_id = uid, r_items = items (snd d), r_id = Some (fst d)\<rparr>,
              Some (s\<lparr>faults := tl (faults s)\<rparr>))
       | None \<Rightarrow>
           get_cart uid (Some s) =
             (Inr \<lparr>r_user_id = uid, r_items = [], r_id = Some (next_oid s)\<rparr>,
              Some (s\<lparr>cart_coll := cart_coll s @ [(next_oid s, \<lparr>user_id = uid, items = []\<rparr>)],
                      next_oid := Suc (next_oid s), faults := tl (tl (faults s))\<rparr>))))"
proof (intro conjI impI)
  assume "get_cart uid db = (Inl e, db')"
  then show "db = None \<and> e = TypeError \<or>
      (\<exists>s. db = Some s \<and> e = StoreUnavailable \<and> \<not> available 2 s)"
    by (rule get_cart_fails)
next
  assume a: "available 2 s"
  then have a1: "available 1 s" by (rule available_mono) simp
  show "case cart_of uid s of
         Some d \<Rightarrow>
           get_cart uid (Some s) =
             (Inr \<lparr>r_user_id = uid, r_items = items (snd d), r_id = Some (fst d)\<rparr>,
              Some (s\<lparr>faults := tl (faults s)\<rparr>))
       | None \<Rightarrow>
           get_cart uid (Some s) =
             (Inr \<lparr>r_user_id = uid, r_items = [], r_id = Some (next_oid s)\<rparr>,
              Some (s\<lparr>cart_coll := cart_coll s @ [(next_oid s, \<lparr>user_id = uid, items = []\<rparr>)],
                      next_oid := Suc (next_oid s), faults := tl (tl (faults s))\<rparr>))"
  proof (cases "cart_of uid s")
    case None
    with get_cart_absent[OF a None] show ?thesis by simp
  next
    case (Some d)
    then have "user_id (snd d) = uid"
      by (auto simp: cart_of_def dest: find_matchesD)
    with get_cart_found[OF a1 Some] Some show ?thesis by simp
  qed
qed

theorem get_cart_get_or_create_witness:
  "get_cart ''u1'' (Some (empty_store [])) =
     (Inr \<lparr>r_user_id = ''u1'', r_items = [], r_id = Some 0\<rparr>,
      Some \<lparr>cart_coll = [(0, \<lparr>user_id = ''u1'', items = []\<rparr>)], order_coll = [],
             next_oid = 1, faults = []\<rparr>) \<and>
   get_cart ''u1'' None = (Inl TypeError, None) \<and>
   get_cart ''u1'' (Some (empty_store [True])) = (Inl StoreUnavailable, Some (empty_store [])) \<and>
   \<not> available 2 (empty_store [True])"
proof -
  have a: "available 2 (empty_store [])"
    by (simp add: available_def empty_store_def)
  have n: "cart_of ''u1'' (empty_store []) = None"
    by (simp add: cart_of_def empty_store_def)
  have f: "get_cart ''u1'' (Some (empty_store [True])) = (Inl StoreUnavailable, Some (empty_store []))"
    by (simp add: get_cart_def find_one_def store_call_def empty_store_def)
  from get_cart_get_or_create[of "''u1''" "Some (empty_store [True])" StoreUnavailable
      "Some (empty_store [])" "empty_store []"] a n f
  show ?thesis
    by (simp add: empty_store_def get_cart_def)
qed

subsection \<open>Placing an order\<close>

lemma create_document_success:
  assumes "create_document ord db = (Inr i, db')"
  shows "\<exists>s. db = Some s \<and> i = next_oid s \<and>
           db' = Some (s\<lparr>order_coll := order_coll s @ [(next_oid s, ord)],
                          next_oid := Suc (next_oid s), faults := tl (faults s)\<rparr>)"
  using assms
  by (auto simp: create_document_def split: option.splits prod.splits if_splits
      dest!: store_call_passes)

lemma create_document_failure:
  assumes "create_document ord db = (Inl e, db')"
  shows "e = StoreUnavailable \<and> map_option cart_coll db' = map_option cart_coll db \<and>
         map_option order_coll db' = map_option order_coll db \<and>
         map_option next_oid db' = map_option next_oid db"
  using assms
  by (auto simp: create_document_def split: option.splits prod.splits if_splits
      dest!: store_call_frame)

lemma find_update_first_clear:
  "find (matches uid) ds = Some d \<Longrightarrow>
     find (matches uid)
       (update_first uid \<lparr>set_oid = None, set_user_id = None, set_items = []\<rparr> ds) =
     Some (fst d, \<lparr>user_id = uid, items = []\<rparr>)"
  by (induction ds) (auto simp: apply_set_def matches_def split: if_splits)

lemma create_order_success:
  assumes "create_order body db = (Inr resp, db')"
  shows "\<exists>s s'. db = Some s \<and> db' = Some s' \<and>
           resp = \<lparr>r_order_id = next_oid s, r_status = ''new''\<rparr> \<and>
           order_coll s' =
             order_coll s @
               [(next_oid s,
                 OrderSchema (cop_user_id body) (cop_items body) (cop_total body)
                   (cop_payment_method body) (cop_address body))] \<and>
           cart_coll s' =
             (case find (matches (cop_user_id body)) (cart_coll s) of
                Some d \<Rightarrow>
                  update_first (cop_user_id body)
                    \<lparr>set_oid = None, set_user_id = None, set_items = []\<rparr> (cart_coll s)
              | None \<Rightarrow>
                  cart_coll s @ [(Suc (next_oid s), \<lparr>user_id = cop_user_id body, items = []\<rparr>)])"
proof -
  let ?ord = "OrderSchema (cop_user_id body) (cop_items body) (cop_total body)
                (cop_payment_method body) (cop_address body)"
  obtain r1 db1 where cd: "create_document ?ord db = (r1, db1)"
    by (cases "create_document ?ord db")
  with assms obtain i where r1: "r1 = Inr i"
    by (cases r1) (auto simp: create_order_def)
  from create_document_success[OF cd[unfolded r1]] obtain s where
    s: "db = Some s" "i = next_oid s"
      "db1 = Some (s\<lparr>order_coll := order_coll s @ [(next_oid s, ?ord)],
                      next_oid := Suc (next_oid s), faults := tl (faults s)\<rparr>)"
    by blast
  let ?s1 = "s\<lparr>order_coll := order_coll s @ [(next_oid s, ?ord)],
                next_oid := Suc (next_oid s), faults := tl (faults s)\<rparr>"
  let ?u = "\<lparr>set_oid = None, set_user_id = None, set_items = []\<rparr>"
  obtain r2 s2 where up: "update_one (cop_user_id body) ?u ?s1 = (r2, s2)"
    by (cases "update_one (cop_user_id body) ?u ?s1")
  with assms cd r1 s have r2: "r2 = Inr ()" and res: "resp = \<lparr>r_order_id = i, r_status = ''new''\<rparr>"
    and db': "db' = Some s2"
    by (cases r2; auto simp: create_order_def)+
  from update_one_success[OF up[unfolded r2]]
  show ?thesis
    using s res db' by (auto simp: apply_set_def split: option.splits)
qed

lemma create_order_available:
  assumes "available 2 s"
  shows "\<exists>resp db'. create_order body (Some s) = (Inr resp, db')"
proof -
  let ?s1 = "s\<lparr>faults := tl (faults s)\<rparr>"
  from assms have a: "available (Suc 1) s"
    by (simp add: numeral_2_eq_2)
  have s1: "store_call s = (True, ?s1)"
    by (rule store_call_available[OF a])
  let ?s2 = "?s1\<lparr>order_coll := order_coll ?s1 @ [(next_oid ?s1,
       OrderSchema (cop_user_id body) (cop_items body) (cop_total body)
                (cop_payment_method body) (cop_address body))], next_oid := Suc (next_oid ?s1)\<rparr>"
  have "available (Suc 0) ?s2"
    using available_drop[OF a] by (simp add: available_def)
  then have s2: "store_call ?s2 = (True, ?s2\<lparr>faults := tl (faults ?s2)\<rparr>)"
    by (rule store_call_available)
  show ?thesis
    using s1 s2
    by (auto simp: create_order_def create_document_def update_one_def split: option.splits)
qed

text \<open>
  Claim C2. After a successful \<^verbatim>\<open>create_order\<close> the response has status \<^verbatim>\<open>"new"\<close>,
  the order collection has gained the order under the returned identifier with status
  \<^verbatim>\<open>"new"\<close> and the fields of the request, and the user's cart document has no items:
  a following \<^verbatim>\<open>get_cart\<close> of that user that returns at all returns \<^verbatim>\<open>items = []\<close>,
  and it does return when its store call goes through.
\<close>

theorem create_order_clears_cart:
  assumes run: "create_order body db = (Inr resp, db')"
  shows "r_status resp = ''new'' \<and>
         (\<exists>s s'. db = Some s \<and> db' = Some s' \<and>
            order_coll s' =
              order_coll s @
                [(r_order_id resp,
                  \<lparr>order_user_id = cop_user_id body, order_items = cop_items body,
                   total = cop_total body, status = ''new'',
                   payment_method = cop_payment_method body, address = cop_address body\<rparr>)] \<and>
            (\<forall>r db''. get_cart (cop_user_id body) db' = (Inr r, db'') \<longrightarrow>
               r_user_id r = cop_user_id body \<and> r_items r = []) \<and>
            (available 1 s' \<longrightarrow>
               (\<exists>r. get_cart (cop_user_id body) db' = (Inr r, Some (s'\<lparr>faults := tl (faults s')\<rparr>)))))"
proof -
  let ?uid = "cop_user_id body"
  from create_order_success[OF run] obtain s s' where
    s: "db = Some s" "db' = Some s'" "resp = \<lparr>r_order_id = next_oid s, r_status = ''new''\<rparr>"
      "order_coll s' =
         order_coll s @
           [(next_oid s,
             OrderSchema ?uid (cop_items body) (cop_total body)
               (cop_payment_method body) (cop_address body))]"
      "cart_coll s' =
         (case find (matches ?uid) (cart_coll s) of
            Some d \<Rightarrow>
              update_first ?uid \<lparr>set_oid = None, set_user_id = None, set_items = []\<rparr> (cart_coll s)
          | None \<Rightarrow> cart_coll s @ [(Suc (next_oid s), \<lparr>user_id = ?uid, items = []\<rparr>)])"
    by blast
  have "\<exists>i. cart_of ?uid s' = Some (i, \<lparr>user_id = ?uid, items = []\<rparr>)"
  proof (cases "find (matches ?uid) (cart_coll s)")
    case None
    then have "find (matches ?uid) (cart_coll s @ [(Suc (next_oid s), \<lparr>user_id = ?uid, items = []\<rparr>)])
        = Some (Suc (next_oid s), \<lparr>user_id = ?uid, items = []\<rparr>)"
      by (rule find_append_new) (simp add: matches_def)
    with None s(5) show ?thesis by (simp add: cart_of_def)
  next
    case (Some d)
    from find_update_first_clear[OF this] Some s(5) show ?thesis
      by (simp add: cart_of_def)
  qed
  then obtain i where cart: "cart_of ?uid s' = Some (i, \<lparr>user_id = ?uid, items = []\<rparr>)"
    by blast
  have read: "r_user_id r = ?uid \<and> r_items r = []" if "get_cart ?uid db' = (Inr r, db'')" for r db''
    using get_cart_success[OF that[unfolded s(2)]] cart by simp
  have ret: "\<exists>r. get_cart ?uid db' = (Inr r, Some (s'\<lparr>faults := tl (faults s')\<rparr>))"
    if "available 1 s'"
    using get_cart_found[OF that cart] s(2) by simp
  show ?thesis
    using s(1-4) read ret by (auto simp: OrderSchema_def)
qed

theorem create_order_clears_cart_witness:
  "\<exists>resp s'.
     create_order
       \<lparr>cop_user_id = ''u1'', cop_items = [[(''product_id'', JStr ''p1''), (''qty'', JInt 5)]],
        cop_total = 50, cop_payment_method = ''cod'', cop_address = []\<rparr>
       (Some \<lparr>cart_coll = [(0, \<lparr>user_id = ''u1'', items = [\<lparr>product_id = ''p1'', qty = 5\<rparr>]\<rparr>)],
              order_coll = [], next_oid = 1, faults = []\<rparr>) = (Inr resp, Some s') \<and>
     r_status resp = ''new'' \<and>
     (\<exists>r. get_cart ''u1'' (Some s') = (Inr r, Some s') \<and> r_items r = [])"
proof -
  let ?body = "\<lparr>cop_user_id = ''u1'', cop_items = [[(''product_id'', JStr ''p1''), (''qty'', JInt 5)]],
        cop_total = 50, cop_payment_method = ''cod'', cop_address = []\<rparr>"
  let ?s = "\<lparr>cart_coll = [(0, \<lparr>user_id = ''u1'', items = [\<lparr>product_id = ''p1'', qty = 5\<rparr>]\<rparr>)],
              order_coll = [], next_oid = 1, faults = []\<rparr>"
  have "available 2 ?s" by (simp add: available_def)
  from create_order_available[OF this, of ?body] obtain resp db' where
    run: "create_order ?body (Some ?s) = (Inr resp, db')" by blast
  have f: "faults s' = []" if "db' = Some s'" for s'
    using run that
    by (auto simp: create_order_def create_document_def update_one_def store_call_def
        split: option.splits prod.splits if_splits)
  from create_order_clears_cart[OF run] obtain s' where
    s': "db' = Some s'" "r_status resp = ''new''"
    "\<forall>r db''. get_cart ''u1'' db' = (Inr r, db'') \<longrightarrow> r_items r = []"
    "available 1 s' \<longrightarrow> (\<exists>r. get_cart ''u1'' db' = (Inr r, Some (s'\<lparr>faults := tl (faults s')\<rparr>)))"
    by auto
  from f[OF s'(1)] have "available 1 s'" "s'\<lparr>faults := tl (faults s')\<rparr> = s'"
    by (simp_all add: available_def)
  with s' run show ?thesis by auto
qed

text \<open>
  Claim C3. When persisting the order fails, \<^verbatim>\<open>create_order\<close> raises that error to the
  caller and stops before line 240: the cart collection is as before, and so is the order
  collection (the write is all or nothing, no document is left behind).
\<close>

theorem create_order_persist_failure:
  assumes "create_document
             (OrderSchema (cop_user_id body) (cop_items body) (cop_total body)
                (cop_payment_method body) (cop_address body)) db = (Inl e, db1)"
  shows "create_order body db = (Inl e, db1) \<and>
         map_option cart_coll db1 = map_option cart_coll db \<and>
         map_option order_coll db1 = map_option order_coll db"
  using assms create_document_failure[OF assms]
  by (simp add: create_order_def)

theorem create_order_persist_failure_witness:
  "create_order
     \<lparr>cop_user_id = ''u1'', cop_items = [], cop_total = 50, cop_payment_method = ''cod'',
      cop_address = []\<rparr>
     (Some \<lparr>cart_coll = [(0, \<lparr>user_id = ''u1'', items = [\<lparr>product_id = ''p1'', qty = 5\<rparr>]\<rparr>)],
            order_coll = [], next_oid = 1, faults = [True]\<rparr>) =
   (Inl StoreUnavailable,
    Some \<lparr>cart_coll = [(0, \<lparr>user_id = ''u1'', items = [\<lparr>product_id = ''p1'', qty = 5\<rparr>]\<rparr>)],
           order_coll = [], next_oid = 1, faults = []\<rparr>)"
proof -
  let ?body = "\<lparr>cop_user_id = ''u1'', cop_items = [], cop_total = 50, cop_payment_method = ''cod'',
      cop_address = []\<rparr>"
  let ?s = "\<lparr>cart_coll = [(0, \<lparr>user_id = ''u1'', items = [\<lparr>product_id = ''p1'', qty = 5\<rparr>]\<rparr>)],
            order_coll = [], next_oid = 1, faults = [True]\<rparr>"
  have "create_document
             (OrderSchema (cop_user_id ?body) (cop_items ?body) (cop_total ?body)
                (cop_payment_method ?body) (cop_address ?body)) (Some ?s) =
        (Inl StoreUnavailable, Some (?s\<lparr>faults := []\<rparr>))"
    by (simp add: create_document_def store_call_def)
  from create_order_persist_failure[OF this] show ?thesis by simp
qed

subsection \<open>The effect of a request on the collections\<close>

lemma put_cart_update_first:
  "find (matches uid) ds = Some d \<Longrightarrow> set_user_id u = None \<or> set_user_id u = Some uid \<Longrightarrow>
     set_items u = f (items (snd d)) \<Longrightarrow> update_first uid u ds = put_cart uid f i ds"
  by (induction ds) (auto simp: apply_set_def matches_def split: if_splits)

lemma put_cart_append:
  "find (matches uid) ds = None \<Longrightarrow> ds @ [(i, \<lparr>user_id = uid, items = f []\<rparr>)] = put_cart uid f i ds"
  by (induction ds) (auto split: if_splits)

lemma store_call_cases:
  obtains s1 where "store_call s = (False, s1)" "cart_coll s1 = cart_coll s"
      "order_coll s1 = order_coll s" "next_oid s1 = next_oid s"
  | "store_call s = (True, s\<lparr>faults := tl (faults s)\<rparr>)"
proof (cases "store_call s")
  case (Pair ok s1)
  show ?thesis
  proof (cases ok)
    case True
    with Pair store_call_passes[of s s1] that(2) show ?thesis by simp
  next
    case False
    with Pair store_call_frame[OF Pair] that(1) show ?thesis by simp
  qed
qed

lemma update_one_effect:
  assumes u: "set_oid u = None \<or> set_oid u = map_option fst (find (matches uid) (cart_coll s))"
    and usr: "set_user_id u = None \<or> set_user_id u = Some uid"
    and f: "set_items u = f (case find (matches uid) (cart_coll s) of None \<Rightarrow> [] | Some d \<Rightarrow> items (snd d))"
  shows "\<exists>r s'. update_one uid u s = (r, s') \<and> order_coll s' = order_coll s \<and>
           (cart_coll s' = cart_coll s \<and> next_oid s' = next_oid s \<or>
            cart_coll s' = put_cart uid f (next_oid s) (cart_coll s) \<and>
              next_oid s' = (if find (matches uid) (cart_coll s) = None then Suc (next_oid s)
                             else next_oid s))"
proof (cases s rule: store_call_cases)
  case (1 s1)
  then show ?thesis by (simp add: update_one_def)
next
  case 2
  show ?thesis
  proof (cases "find (matches uid) (cart_coll s)")
    case None
    with u have "set_oid u = None" by auto
    with 2 None usr f put_cart_append[OF None, of "next_oid s" f] show ?thesis
      by (auto simp: update_one_def apply_set_def)
  next
    case (Some d)
    from put_cart_update_first[OF Some usr, of f "next_oid s"] f Some
    have "update_first uid u (cart_coll s) = put_cart uid f (next_oid s) (cart_coll s)"
      by simp
    with 2 Some u show ?thesis
      by (auto simp: update_one_def)
  qed
qed

lemma get_cart_effect:
  "\<exists>r s'. get_cart uid (Some s) = (r, Some s') \<and> order_coll s' = order_coll s \<and>
      (cart_coll s' = cart_coll s \<and> next_oid s' = next_oid s \<or>
       cart_coll s' = put_cart uid (\<lambda>its. its) (next_oid s) (cart_coll s) \<and>
         next_oid s' = (if find (matches uid) (cart_coll s) = None then Suc (next_oid s)
                        else next_oid s))"
proof (cases s rule: store_call_cases)
  case (1 s1)
  then show ?thesis by (simp add: get_cart_def find_one_def)
next
  case 2
  let ?s1 = "s\<lparr>faults := tl (faults s)\<rparr>"
  show ?thesis
  proof (cases "find (matches uid) (cart_coll s)")
    case (Some d)
    with 2 show ?thesis by (simp add: get_cart_def find_one_def)
  next
    case None
    show ?thesis
    proof (cases ?s1 rule: store_call_cases)
      case (1 s2)
      with 2 None show ?thesis by (simp add: get_cart_def find_one_def insert_one_def)
    next
      case 2
      with \<open>store_call s = (True, ?s1)\<close> None put_cart_append[OF None, of "next_oid s" "\<lambda>its. its"]
      show ?thesis by (simp add: get_cart_def find_one_def insert_one_def)
    qed
  qed
qed

lemma add_to_cart_effect:
  "\<exists>r s'. add_to_cart body (Some s) = (r, Some s') \<and> order_coll s' = order_coll s \<and>
      (cart_coll s' = cart_coll s \<and> next_oid s' = next_oid s \<or>
       cart_coll s' =
         put_cart (cip_user_id body) (upsert_product (cip_product_id body) (cip_qty body))
           (next_oid s) (cart_coll s) \<and>
         next_oid s' = (if find (matches (cip_user_id body)) (cart_coll s) = None
                        then Suc (next_oid s) else next_oid s))"
proof (cases s rule: store_call_cases)
  case (1 s1)
  then show ?thesis by (simp add: add_to_cart_def add_read_def find_one_def)
next
  case 2
  let ?s1 = "s\<lparr>faults := tl (faults s)\<rparr>"
  let ?uid = "cip_user_id body"
  let ?f = "upsert_product (cip_product_id body) (cip_qty body)"
  obtain c where c: "add_read body s = (Inr c, ?s1)"
    "c = (case find (matches ?uid) (cart_coll s) of
            None \<Rightarrow> (None, \<lparr>user_id = ?uid, items = []\<rparr>) | Some d \<Rightarrow> (Some (fst d), snd d))"
    using 2 by (auto simp: add_read_def find_one_def split: option.splits)
  let ?u = "\<lparr>set_oid = fst (add_merge body c), set_user_id = Some (user_id (snd (add_merge body c))),
             set_items = items (snd (add_merge body c))\<rparr>"
  have uid: "user_id (snd c) = ?uid"
    using c(2) by (auto split: option.splits dest: find_matchesD)
  have "\<exists>r s'. update_one ?uid ?u ?s1 = (r, s') \<and> order_coll s' = order_coll ?s1 \<and>
           (cart_coll s' = cart_coll ?s1 \<and> next_oid s' = next_oid ?s1 \<or>
            cart_coll s' = put_cart ?uid ?f (next_oid ?s1) (cart_coll ?s1) \<and>
              next_oid s' = (if find (matches ?uid) (cart_coll ?s1) = None then Suc (next_oid ?s1)
                             else next_oid ?s1))"
    by (rule update_one_effect) (auto simp: add_merge_def c(2) uid split: option.splits dest: find_matchesD)
  then obtain r s' where up: "update_one ?uid ?u ?s1 = (r, s')" "order_coll s' = order_coll s"
    "cart_coll s' = cart_coll s \<and> next_oid s' = next_oid s \<or>
            cart_coll s' = put_cart ?uid ?f (next_oid s) (cart_coll s) \<and>
              next_oid s' = (if find (matches ?uid) (cart_coll s) = None then Suc (next_oid s)
                             else next_oid s)"
    by auto
  from c(1) up(1) have "\<exists>r'. add_to_cart body (Some s) = (r', Some s')"
    by (cases r) (simp_all add: add_to_cart_def add_write_def)
  with up(2,3) show ?thesis by auto
qed

lemma create_order_effect:
  "\<exists>r s' new. create_order body (Some s) = (r, Some s') \<and>
      order_coll s' = order_coll s @ new \<and> (\<forall>d\<in>set new. next_oid s \<le> fst d \<and> fst d < next_oid s') \<and>
      next_oid s \<le> next_oid s' \<and>
      (\<exists>i. cart_coll s' = cart_coll s \<or>
            cart_coll s' = put_cart (cop_user_id body) (\<lambda>its. []) i (cart_coll s) \<and>
            next_oid s \<le> i \<and> i < next_oid s')"
proof (cases s rule: store_call_cases)
  case (1 s1)
  then show ?thesis by (auto simp: create_order_def create_document_def)
next
  case 2
  let ?uid = "cop_user_id body"
  let ?ord = "OrderSchema ?uid (cop_items body) (cop_total body) (cop_payment_method body) (cop_address body)"
  let ?s1 = "s\<lparr>faults := tl (faults s), order_coll := order_coll s @ [(next_oid s, ?ord)],
                next_oid := Suc (next_oid s)\<rparr>"
  let ?u = "\<lparr>set_oid = None, set_user_id = None, set_items = []\<rparr>"
  from 2 have cd: "create_document ?ord (Some s) = (Inr (next_oid s), Some ?s1)"
    by (simp add: create_document_def)
  have "\<exists>r s'. update_one ?uid ?u ?s1 = (r, s') \<and> order_coll s' = order_coll ?s1 \<and>
           (cart_coll s' = cart_coll ?s1 \<and> next_oid s' = next_oid ?s1 \<or>
            cart_coll s' = put_cart ?uid (\<lambda>its. []) (next_oid ?s1) (cart_coll ?s1) \<and>
              next_oid s' = (if find (matches ?uid) (cart_coll ?s1) = None then Suc (next_oid ?s1)
                             else next_oid ?s1))"
    by (rule update_one_effect) auto
  then obtain r s' where up: "update_one ?uid ?u ?s1 = (r, s')"
    "order_coll s' = order_coll s @ [(next_oid s, ?ord)]"
    "cart_coll s' = cart_coll s \<and> next_oid s' = Suc (next_oid s) \<or>
            cart_coll s' = put_cart ?uid (\<lambda>its. []) (Suc (next_oid s)) (cart_coll s) \<and>
              next_oid s' = (if find (matches ?uid) (cart_coll s) = None then Suc (Suc (next_oid s))
                             else Suc (next_oid s))"
    by auto
  from cd up(1) have run: "\<exists>r'. create_order body (Some s) = (r', Some s')"
    by (cases r) (simp_all add: create_order_def)
  from up(3) have n: "Suc (next_oid s) \<le> next_oid s'"
    by (auto split: if_splits)
  have carts: "\<exists>i. cart_coll s' = cart_coll s \<or>
            cart_coll s' = put_cart ?uid (\<lambda>its. []) i (cart_coll s) \<and> next_oid s \<le> i \<and> i < next_oid s'"
  proof (cases "cart_coll s' = cart_coll s")
    case True
    then show ?thesis by simp
  next
    case False
    with up(3) have a: "cart_coll s' = put_cart ?uid (\<lambda>its. []) (Suc (next_oid s)) (cart_coll s)"
      by auto
    show ?thesis
    proof (cases "find (matches ?uid) (cart_coll s)")
      case None
      with up(3) False have "next_oid s' = Suc (Suc (next_oid s))" by auto
      with a show ?thesis by (intro exI[of _ "Suc (next_oid s)"]) simp
    next
      case (Some d)
      have "put_cart ?uid (\<lambda>its. []) i (cart_coll s) = put_cart ?uid (\<lambda>its. []) j (cart_coll s)" for i j
        using put_cart_update_first[OF Some, of ?u "\<lambda>its. []" i]
          put_cart_update_first[OF Some, of ?u "\<lambda>its. []" j] by simp
      with a have "cart_coll s' = put_cart ?uid (\<lambda>its. []) (next_oid s) (cart_coll s)" by simp
      with n show ?thesis by (intro exI[of _ "next_oid s"]) simp
    qed
  qed
  from run up(2) n carts show ?thesis
    by (auto intro!: exI[of _ "[(next_oid s, ?ord)]"])
qed

lemma items_after_fun:
  "items_after (GetCart uid) = (\<lambda>its. its)"
  "items_after (AddItem b) = upsert_product (cip_product_id b) (cip_qty b)"
  "items_after (CreateOrder c) = (\<lambda>its. [])"
  by (simp_all add: fun_eq_iff)

lemma serve_effect:
  "\<exists>s' new i. serve r (Some s) = Some s' \<and>
      order_coll s' = order_coll s @ new \<and>
      (\<forall>d\<in>set new. next_oid s \<le> fst d \<and> fst d < next_oid s') \<and>
      next_oid s \<le> next_oid s' \<and>
      (cart_coll s' = cart_coll s \<or>
       cart_coll s' = put_cart (user_of r) (items_after r) i (cart_coll s))"
proof (cases r)
  case (GetCart uid)
  from get_cart_effect[of uid s] obtain res s' where
    "get_cart uid (Some s) = (res, Some s')" "order_coll s' = order_coll s"
    "cart_coll s' = cart_coll s \<and> next_oid s' = next_oid s \<or>
       cart_coll s' = put_cart uid (\<lambda>its. its) (next_oid s) (cart_coll s) \<and>
         next_oid s' = (if find (matches uid) (cart_coll s) = None then Suc (next_oid s)
                        else next_oid s)"
    by blast
  then show ?thesis
    unfolding GetCart
    by (intro exI[of _ s'] exI[of _ "[]"] exI[of _ "next_oid s"])
       (auto simp: items_after_fun split: if_splits)
next
  case (AddItem body)
  from add_to_cart_effect[of body s] obtain res s' where
    "add_to_cart body (Some s) = (res, Some s')" "order_coll s' = order_coll s"
    "cart_coll s' = cart_coll s \<and> next_oid s' = next_oid s \<or>
       cart_coll s' =
         put_cart (cip_user_id body) (upsert_product (cip_product_id body) (cip_qty body))
           (next_oid s) (cart_coll s) \<and>
         next_oid s' = (if find (matches (cip_user_id body)) (cart_coll s) = None
                        then Suc (next_oid s) else next_oid s)"
    by blast
  then have "serve r (Some s) = Some s' \<and>
      order_coll s' = order_coll s @ [] \<and>
      (\<forall>d\<in>set []. next_oid s \<le> fst d \<and> fst d < next_oid s') \<and>
      next_oid s \<le> next_oid s' \<and>
      (cart_coll s' = cart_coll s \<or>
       cart_coll s' = put_cart (user_of r) (items_after r) (next_oid s) (cart_coll s))"
    unfolding AddItem
    by (auto simp: items_after_fun split: if_splits)
  then show ?thesis by blast
next
  case (CreateOrder body)
  from create_order_effect[of body s] obtain res s' new i where
    e: "create_order body (Some s) = (res, Some s')" "order_coll s' = order_coll s @ new"
      "\<forall>d\<in>set new. next_oid s \<le> fst d \<and> fst d < next_oid s'" "next_oid s \<le> next_oid s'"
      "cart_coll s' = cart_coll s \<or>
         cart_coll s' = put_cart (cop_user_id body) (\<lambda>its. []) i (cart_coll s) \<and>
         next_oid s \<le> i \<and> i < next_oid s'"
    by blast
  then have "serve r (Some s) = Some s' \<and>
      order_coll s' = order_coll s @ new \<and>
      (\<forall>d\<in>set new. next_oid s \<le> fst d \<and> fst d < next_oid s') \<and>
      next_oid s \<le> next_oid s' \<and>
      (cart_coll s' = cart_coll s \<or>
       cart_coll s' = put_cart (user_of r) (items_after r) i (cart_coll s))"
    unfolding CreateOrder by (auto simp: items_after_fun)
  then show ?thesis by blast
qed

subsection \<open>Runs of requests\<close>

lemmas run_defs =
  get_cart_def add_to_cart_def add_read_def add_merge_def add_write_def create_order_def
  create_document_def find_one_def insert_one_def update_one_def store_call_def
  upsert_product_def apply_set_def matches_def cart_to_response_def OrderSchema_def
  empty_store_def

lemma serve_all_invariant:
  assumes step: "\<And>r s s'. r \<in> set rs \<Longrightarrow> I s \<Longrightarrow> serve r (Some s) = Some s' \<Longrightarrow> I s'"
    and init: "I s"
  shows "\<exists>s'. serve_all rs (Some s) = Some s' \<and> I s'"
  using assms
proof (induction rs arbitrary: s)
  case Nil
  then show ?case by simp
next
  case (Cons r rs)
  from serve_effect[of r s] obtain s1 where s1: "serve r (Some s) = Some s1"
    by blast
  have "I s1"
    using Cons.prems(1)[of r s s1] Cons.prems(2) s1 by simp
  moreover have "I t'" if "r' \<in> set rs" "I t" "serve r' (Some t) = Some t'" for r' t t'
    using Cons.prems(1)[of r' t t'] that by simp
  ultimately have "\<exists>s'. serve_all rs (Some s1) = Some s' \<and> I s'"
    by (intro Cons.IH) blast+
  with s1 show ?case by simp
qed

subsection \<open>Invariants of the cart collection\<close>

lemma put_cart_users:
  "map (\<lambda>d. user_id (snd d)) (put_cart uid f i ds) =
     (if uid \<in> (\<lambda>d. user_id (snd d)) ` set ds then map (\<lambda>d. user_id (snd d)) ds
      else map (\<lambda>d. user_id (snd d)) ds @ [uid])"
  by (induction ds) (auto simp: matches_def)

lemma put_cart_items:
  assumes "\<forall>d\<in>set ds. P (items (snd d))" and "P (f [])"
    and "\<And>its. P its \<Longrightarrow> P (f its)"
  shows "\<forall>d\<in>set (put_cart uid f i ds). P (items (snd d))"
  using assms(1)
  by (induction ds) (auto simp: assms(2,3))

lemma bump_first_products:
  "map product_id (snd (bump_first pid q its)) = map product_id its"
  by (induction its) (auto split: prod.splits)

lemma bump_first_positive:
  "\<forall>it\<in>set its. 1 \<le> qty it \<Longrightarrow> 1 \<le> q \<Longrightarrow> \<forall>it\<in>set (snd (bump_first pid q its)). 1 \<le> qty it"
  by (induction its) (auto split: prod.splits)

lemma upsert_product_cases:
  "upsert_product pid q its =
     (if pid \<in> product_id ` set its then snd (bump_first pid q its)
      else snd (bump_first pid q its) @ [\<lparr>product_id = pid, qty = q\<rparr>])"
  using bump_first_flag[of pid q its]
  by (cases "bump_first pid q its") (auto simp: upsert_product_def)

lemma upsert_product_distinct:
  assumes "distinct (map product_id its)"
  shows "distinct (map product_id (upsert_product pid q its))"
proof (cases "pid \<in> product_id ` set its")
  case True
  with assms show ?thesis
    by (simp add: upsert_product_cases bump_first_products)
next
  case False
  then have "pid \<notin> set (map product_id its)" by simp
  with assms False show ?thesis
    by (simp add: upsert_product_cases bump_first_products del: set_map)
qed

lemma upsert_product_positive:
  assumes "\<forall>it\<in>set its. 1 \<le> qty it" and "1 \<le> q"
  shows "\<forall>it\<in>set (upsert_product pid q its). 1 \<le> qty it"
  using bump_first_positive[OF assms, of pid] assms(2)
  by (simp add: upsert_product_cases)

lemma items_after_distinct:
  "distinct (map product_id its) \<Longrightarrow> distinct (map product_id (items_after r its))"
  by (cases r) (simp_all add: upsert_product_distinct)

lemma items_after_positive:
  "\<forall>it\<in>set its. 1 \<le> qty it \<Longrightarrow> (\<And>b. r = AddItem b \<Longrightarrow> 1 \<le> cip_qty b) \<Longrightarrow>
     \<forall>it\<in>set (items_after r its). 1 \<le> qty it"
  by (cases r) (simp_all add: upsert_product_positive)

lemma serve_unique_products:
  assumes "\<forall>d\<in>set (cart_coll s). unique_products (snd d)" and "serve r (Some s) = Some s'"
  shows "\<forall>d\<in>set (cart_coll s'). unique_products (snd d)"
proof -
  from serve_effect[of r s] assms(2) obtain i where
    "cart_coll s' = cart_coll s \<or> cart_coll s' = put_cart (user_of r) (items_after r) i (cart_coll s)"
    by auto
  moreover have "\<forall>d\<in>set (put_cart (user_of r) (items_after r) i (cart_coll s)).
      distinct (map product_id (items (snd d)))"
    using assms(1)
    by (intro put_cart_items) (auto simp: unique_products_def intro: items_after_distinct)
  ultimately show ?thesis
    using assms(1) by (auto simp: unique_products_def)
qed

lemma serve_positive_qtys:
  assumes "\<forall>d\<in>set (cart_coll s). positive_qtys (snd d)" and "serve r (Some s) = Some s'"
    and "\<And>b. r = AddItem b \<Longrightarrow> 1 \<le> cip_qty b"
  shows "\<forall>d\<in>set (cart_coll s'). positive_qtys (snd d)"
proof -
  from serve_effect[of r s] assms(2) obtain i where
    "cart_coll s' = cart_coll s \<or> cart_coll s' = put_cart (user_of r) (items_after r) i (cart_coll s)"
    by auto
  moreover have "\<forall>d\<in>set (put_cart (user_of r) (items_after r) i (cart_coll s)).
      \<forall>it\<in>set (items (snd d)). 1 \<le> qty it"
  proof (rule put_cart_items)
    show "\<forall>d\<in>set (cart_coll s). \<forall>it\<in>set (items (snd d)). 1 \<le> qty it"
      using assms(1) by (simp add: positive_qtys_def)
    show "\<forall>it\<in>set (items_after r []). 1 \<le> qty it"
      by (rule items_after_positive) (simp_all add: assms(3))
    show "\<forall>it\<in>set (items_after r its). 1 \<le> qty it" if "\<forall>it\<in>set its. 1 \<le> qty it" for its
      using that by (rule items_after_positive) (simp add: assms(3))
  qed
  ultimately show ?thesis
    using assms(1) by (auto simp: positive_qtys_def)
qed

lemma serve_one_cart_per_user:
  assumes "one_cart_per_user s" and "serve r (Some s) = Some s'"
  shows "one_cart_per_user s'"
proof -
  from serve_effect[of r s] assms(2) obtain i where
    "cart_coll s' = cart_coll s \<or> cart_coll s' = put_cart (user_of r) (items_after r) i (cart_coll s)"
    by auto
  with assms(1) show ?thesis
    by (auto simp: one_cart_per_user_def put_cart_users)
qed

text \<open>
  Claim C4, as amended. In every store reached from the empty one by \<^verbatim>\<open>get_cart\<close>,
  \<^verbatim>\<open>add_to_cart\<close> and \<^verbatim>\<open>create_order\<close> requests, whatever store calls fail on the
  way, no cart document has two items with the same product id. Quantities are at least 1
  as long as every add request asked for at least 1: then every cart document satisfies the
  whole invariant.
\<close>

theorem reachable_carts_invariant:
  "\<exists>s. serve_all rs (Some (empty_store fs)) = Some s \<and>
       (\<forall>d\<in>set (cart_coll s). unique_products (snd d)) \<and>
       ((\<forall>b. AddItem b \<in> set rs \<longrightarrow> 1 \<le> cip_qty b) \<longrightarrow>
          (\<forall>d\<in>set (cart_coll s). cart_invariant (snd d)))"
proof (cases "\<forall>b. AddItem b \<in> set rs \<longrightarrow> 1 \<le> cip_qty b")
  case True
  let ?I = "\<lambda>s. (\<forall>d\<in>set (cart_coll s). unique_products (snd d)) \<and>
                 (\<forall>d\<in>set (cart_coll s). positive_qtys (snd d))"
  have "\<exists>s. serve_all rs (Some (empty_store fs)) = Some s \<and> ?I s"
  proof (rule serve_all_invariant)
    show "?I (empty_store fs)" by (simp add: empty_store_def)
    show "?I s'" if "r \<in> set rs" "?I s" "serve r (Some s) = Some s'" for r s s'
      using that True serve_unique_products[of s r s'] serve_positive_qtys[of s r s']
      by blast
  qed
  then show ?thesis by (auto simp: cart_invariant_def)
next
  case False
  let ?I = "\<lambda>s. \<forall>d\<in>set (cart_coll s). unique_products (snd d)"
  have "\<exists>s. serve_all rs (Some (empty_store fs)) = Some s \<and> ?I s"
  proof (rule serve_all_invariant)
    show "?I (empty_store fs)" by (simp add: empty_store_def)
    show "?I s'" if "r \<in> set rs" "?I s" "serve r (Some s) = Some s'" for r s s'
      using that serve_unique_products[of s r s'] by blast
  qed
  with False show ?thesis by auto
qed


theorem reachable_carts_invariant_witness:
  "serve_all
     [AddItem \<lparr>cip_user_id = ''u1'', cip_product_id = ''p1'', cip_qty = 2\<rparr>,
      AddItem \<lparr>cip_user_id = ''u1'', cip_product_id = ''p1'', cip_qty = 3\<rparr>]
     (Some (empty_store [])) =
   Some \<lparr>cart_coll = [(0, \<lparr>user_id = ''u1'', items = [\<lparr>product_id = ''p1'', qty = 5\<rparr>]\<rparr>)],
          order_coll = [], next_oid = 1, faults = []\<rparr> \<and>
   cart_invariant \<lparr>user_id = ''u1'', items = [\<lparr>product_id = ''p1'', qty = 5\<rparr>]\<rparr>"
proof -
  let ?rs = "[AddItem \<lparr>cip_user_id = ''u1'', cip_product_id = ''p1'', cip_qty = 2\<rparr>,
      AddItem \<lparr>cip_user_id = ''u1'', cip_product_id = ''p1'', cip_qty = 3\<rparr>]"
  have run: "serve_all ?rs (Some (empty_store [])) =
     Some \<lparr>cart_coll = [(0, \<lparr>user_id = ''u1'', items = [\<lparr>product_id = ''p1'', qty = 5\<rparr>]\<rparr>)],
          order_coll = [], next_oid = 1, faults = []\<rparr>"
    by (simp add: run_defs)
  have adds: "\<forall>b. AddItem b \<in> set ?rs \<longrightarrow> 1 \<le> cip_qty b"
    by auto
  from reachable_carts_invariant[of ?rs "[]"] run adds show ?thesis
    by simp
qed

text \<open>
  The invariant as claim C4 states it does not hold of every reachable cart:
  \<^verbatim>\<open>qty: int = 1\<close> admits any integer, and an add of quantity 0 to an empty store
  persists a line item of quantity 0.
\<close>

theorem cart_invariant_counterexample:
  "serve_all [AddItem \<lparr>cip_user_id = ''u1'', cip_product_id = ''p1'', cip_qty = 0\<rparr>]
     (Some (empty_store [])) =
   Some \<lparr>cart_coll = [(0, \<lparr>user_id = ''u1'', items = [\<lparr>product_id = ''p1'', qty = 0\<rparr>]\<rparr>)],
          order_coll = [], next_oid = 1, faults = []\<rparr> \<and>
   \<not> cart_invariant \<lparr>user_id = ''u1'', items = [\<lparr>product_id = ''p1'', qty = 0\<rparr>]\<rparr>"
  by (simp add: run_defs cart_invariant_def positive_qtys_def)

subsection \<open>One cart document per user\<close>

lemma get_cart_success_state:
  assumes "get_cart uid (Some s) = (Inr r, db')"
  shows "\<exists>s'. db' = Some s' \<and> order_coll s' = order_coll s \<and>
           cart_coll s' =
             (case cart_of uid s of
                Some d \<Rightarrow> cart_coll s
              | None \<Rightarrow> cart_coll s @ [(next_oid s, \<lparr>user_id = uid, items = []\<rparr>)])"
  using assms
  by (auto simp: get_cart_def find_one_def insert_one_def cart_of_def
      split: prod.splits option.splits if_splits dest!: store_call_frame)

text \<open>
  Claim C7. The cart collection never holds two documents of one user: this holds in
  every store reached from the empty one by any requests, and any request run keeps it
  once it holds. For a user without a cart document, two \<^verbatim>\<open>get_cart\<close> calls in a row
  that both return give the same identifier, the one generated by the first call, and
  together add exactly one document to the collection.
\<close>

theorem one_cart_document_per_user:
  "(\<exists>s. serve_all rs (Some (empty_store fs)) = Some s \<and> one_cart_per_user s) \<and>
   (one_cart_per_user s0 \<longrightarrow> (\<exists>s. serve_all rs (Some s0) = Some s \<and> one_cart_per_user s)) \<and>
   (cart_of uid s0 = None \<and> get_cart uid (Some s0) = (Inr r1, db1) \<and>
      get_cart uid db1 = (Inr r2, db2) \<longrightarrow>
        r_id r1 = Some (next_oid s0) \<and> r_id r2 = r_id r1 \<and>
        (\<exists>s1 s2. db1 = Some s1 \<and> db2 = Some s2 \<and>
           cart_coll s1 = cart_coll s0 @ [(next_oid s0, \<lparr>user_id = uid, items = []\<rparr>)] \<and>
           cart_coll s2 = cart_coll s1))"
proof (rule conjI[OF _ conjI[OF impI impI]])
  show "\<exists>s. serve_all rs (Some (empty_store fs)) = Some s \<and> one_cart_per_user s"
  proof (rule serve_all_invariant)
    show "one_cart_per_user (empty_store fs)"
      by (simp add: empty_store_def one_cart_per_user_def)
  qed (rule serve_one_cart_per_user)
next
  assume "one_cart_per_user s0"
  then show "\<exists>s. serve_all rs (Some s0) = Some s \<and> one_cart_per_user s"
    by (rule serve_all_invariant[rotated]) (rule serve_one_cart_per_user)
next
  assume a: "cart_of uid s0 = None \<and> get_cart uid (Some s0) = (Inr r1, db1) \<and>
      get_cart uid db1 = (Inr r2, db2)"
  then have none: "cart_of uid s0 = None" and g1: "get_cart uid (Some s0) = (Inr r1, db1)"
    and g2: "get_cart uid db1 = (Inr r2, db2)"
    by simp_all
  let ?d = "(next_oid s0, \<lparr>user_id = uid, items = []\<rparr>)"
  from get_cart_success[OF g1] none have r1: "r_id r1 = Some (next_oid s0)"
    by simp
  from get_cart_success_state[OF g1] none obtain s1 where
    s1: "db1 = Some s1" "cart_coll s1 = cart_coll s0 @ [?d]"
    by auto
  from none have "find (matches uid) (cart_coll s0 @ [?d]) = Some ?d"
    unfolding cart_of_def by (rule find_append_new) (simp add: matches_def)
  with s1(2) have c1: "cart_of uid s1 = Some ?d"
    by (simp add: cart_of_def)
  from get_cart_success[OF g2[unfolded s1(1)]] c1 have r2: "r_id r2 = Some (next_oid s0)"
    by simp
  from get_cart_success_state[OF g2[unfolded s1(1)]] c1 obtain s2 where
    s2: "db2 = Some s2" "cart_coll s2 = cart_coll s1"
    by auto
  from r1 r2 s1 s2
  show "r_id r1 = Some (next_oid s0) \<and> r_id r2 = r_id r1 \<and>
        (\<exists>s1 s2. db1 = Some s1 \<and> db2 = Some s2 \<and>
           cart_coll s1 = cart_coll s0 @ [(next_oid s0, \<lparr>user_id = uid, items = []\<rparr>)] \<and>
           cart_coll s2 = cart_coll s1)"
    by simp
qed

theorem one_cart_document_per_user_witness:
  "get_cart ''u1'' (Some (empty_store [])) =
     (Inr \<lparr>r_user_id = ''u1'', r_items = [], r_id = Some 0\<rparr>,
      Some \<lparr>cart_coll = [(0, \<lparr>user_id = ''u1'', items = []\<rparr>)], order_coll = [],
             next_oid = 1, faults = []\<rparr>) \<and>
   get_cart ''u1''
     (Some \<lparr>cart_coll = [(0, \<lparr>user_id = ''u1'', items = []\<rparr>)], order_coll = [],
             next_oid = 1, faults = []\<rparr>) =
     (Inr \<lparr>r_user_id = ''u1'', r_items = [], r_id = Some 0\<rparr>,
      Some \<lparr>cart_coll = [(0, \<lparr>user_id = ''u1'', items = []\<rparr>)], order_coll = [],
             next_oid = 1, faults = []\<rparr>) \<and>
   one_cart_per_user (empty_store []) \<and>
   (\<exists>s. serve_all [GetCart ''u1'', GetCart ''u1''] (Some (empty_store [])) = Some s \<and>
        one_cart_per_user s)"
proof -
  let ?s1 = "\<lparr>cart_coll = [(0, \<lparr>user_id = ''u1'', items = []\<rparr>)], order_coll = [],
             next_oid = 1, faults = []\<rparr>"
  let ?r = "\<lparr>r_user_id = ''u1'', r_items = [], r_id = Some 0\<rparr>"
  have none: "cart_of ''u1'' (empty_store []) = None"
    by (simp add: cart_of_def empty_store_def)
  have g1: "get_cart ''u1'' (Some (empty_store [])) = (Inr ?r, Some ?s1)"
    by (simp add: run_defs)
  have g2: "get_cart ''u1'' (Some ?s1) = (Inr ?r, Some ?s1)"
    by (simp add: run_defs)
  have inv: "one_cart_per_user (empty_store [])"
    by (simp add: one_cart_per_user_def empty_store_def)
  from one_cart_document_per_user[of "[GetCart ''u1'', GetCart ''u1'']" "[]" "empty_store []"
      "''u1''" ?r "Some ?s1" ?r "Some ?s1"] none g1 g2 inv
  show ?thesis by simp
qed

subsection \<open>Orders stay as they were placed\<close>

lemma find_append_Some:
  "find P xs = Some d \<Longrightarrow> find P (xs @ ys) = Some d"
  by (induction xs) (auto split: if_splits)

lemma find_append_None:
  "find P xs = None \<Longrightarrow> P d \<Longrightarrow> find P (xs @ [d]) = Some d"
  by (induction xs) (auto split: if_splits)

lemma serve_order_ids_fresh:
  assumes "order_ids_fresh s" and "serve r (Some s) = Some s'"
  shows "order_ids_fresh s'"
proof -
  from serve_effect[of r s] assms(2) obtain new where
    "order_coll s' = order_coll s @ new" "\<forall>d\<in>set new. fst d < next_oid s'"
    "next_oid s \<le> next_oid s'"
    by auto
  with assms(1) show ?thesis
    by (fastforce simp: order_ids_fresh_def)
qed

lemma serve_order_kept:
  assumes "order_by_id i s = Some d" and "serve r (Some s) = Some s'"
  shows "order_by_id i s' = Some d"
proof -
  from serve_effect[of r s] assms(2) obtain new where
    "order_coll s' = order_coll s @ new"
    by auto
  with assms(1) show ?thesis
    by (simp add: order_by_id_def find_append_Some)
qed

lemma reachable_order_ids_fresh:
  "\<exists>s. serve_all rs (Some (empty_store fs)) = Some s \<and> order_ids_fresh s"
proof (rule serve_all_invariant)
  show "order_ids_fresh (empty_store fs)"
    by (simp add: order_ids_fresh_def empty_store_def)
qed (rule serve_order_ids_fresh)

text \<open>
  Claim C8. Take any store reached from the empty one, and a \<^verbatim>\<open>create_order\<close> on it
  that returns. The response has status \<^verbatim>\<open>"new"\<close>, and after any further requests the
  order read back by the returned identifier is the order of the request: its items,
  total, payment method and address as passed, and status \<^verbatim>\<open>"new"\<close>. The request has
  no status field, and no endpoint writes to an existing order.
\<close>

theorem orders_immutable:
  assumes reach: "db = serve_all rs0 (Some (empty_store fs))"
    and run: "create_order body db = (Inr resp, db1)"
  shows "r_status resp = ''new'' \<and>
         (\<exists>s2. serve_all rs db1 = Some s2 \<and>
            order_by_id (r_order_id resp) s2 =
              Some (r_order_id resp,
                    \<lparr>order_user_id = cop_user_id body, order_items = cop_items body,
                     total = cop_total body, status = ''new'',
                     payment_method = cop_payment_method body, address = cop_address body\<rparr>))"
proof -
  let ?ord = "\<lparr>order_user_id = cop_user_id body, order_items = cop_items body,
                total = cop_total body, status = ''new'',
                payment_method = cop_payment_method body, address = cop_address body\<rparr>"
  from create_order_success[OF run] obtain s s1 where
    s: "db = Some s" "db1 = Some s1" "resp = \<lparr>r_order_id = next_oid s, r_status = ''new''\<rparr>"
      "order_coll s1 = order_coll s @ [(next_oid s, ?ord)]"
    by (auto simp: OrderSchema_def)
  from reachable_order_ids_fresh[of rs0 fs] reach s(1) have fresh: "order_ids_fresh s"
    by auto
  then have "find (\<lambda>d. fst d = next_oid s) (order_coll s) = None"
    by (auto simp: find_None_iff order_ids_fresh_def)
  then have "find (\<lambda>d. fst d = next_oid s) (order_coll s @ [(next_oid s, ?ord)])
      = Some (next_oid s, ?ord)"
    by (rule find_append_None) simp
  with s(4) have here: "order_by_id (next_oid s) s1 = Some (next_oid s, ?ord)"
    by (simp add: order_by_id_def)
  have "\<exists>s2. serve_all rs (Some s1) = Some s2 \<and> order_by_id (next_oid s) s2 = Some (next_oid s, ?ord)"
    using here
    by (rule serve_all_invariant[rotated]) (rule serve_order_kept)
  with s(2,3) show ?thesis by simp
qed

theorem orders_immutable_witness:
  "\<exists>s2. serve_all
          [AddItem \<lparr>cip_user_id = ''u1'', cip_product_id = ''p2'', cip_qty = 1\<rparr>,
           CreateOrder \<lparr>cop_user_id = ''u1'', cop_items = [], cop_total = 7,
                        cop_payment_method = ''card'', cop_address = []\<rparr>,
           GetCart ''u1'']
          (Some \<lparr>cart_coll = [(0, \<lparr>user_id = ''u1'', items = []\<rparr>)],
                 order_coll =
                   [(1, \<lparr>order_user_id = ''u1'',
                         order_items = [[(''product_id'', JStr ''p1''), (''qty'', JInt 5), (''price'', JInt 10)]],
                         total = 50, status = ''new'', payment_method = ''cod'',
                         address = [(''city'', JStr ''Bandung'')]\<rparr>)],
                 next_oid = 2, faults = []\<rparr>) = Some s2 \<and>
        order_by_id 1 s2 =
          Some (1, \<lparr>order_user_id = ''u1'',
                    order_items = [[(''product_id'', JStr ''p1''), (''qty'', JInt 5), (''price'', JInt 10)]],
                    total = 50, status = ''new'', payment_method = ''cod'',
                    address = [(''city'', JStr ''Bandung'')]\<rparr>)"
proof -
  let ?body = "\<lparr>cop_user_id = ''u1'',
                 cop_items = [[(''product_id'', JStr ''p1''), (''qty'', JInt 5), (''price'', JInt 10)]],
                 cop_total = 50, cop_payment_method = ''cod'',
                 cop_address = [(''city'', JStr ''Bandung'')]\<rparr>"
  let ?rs0 = "[AddItem \<lparr>cip_user_id = ''u1'', cip_product_id = ''p1'', cip_qty = 5\<rparr>]"
  let ?db = "Some \<lparr>cart_coll = [(0, \<lparr>user_id = ''u1'', items = [\<lparr>product_id = ''p1'', qty = 5\<rparr>]\<rparr>)],
                   order_coll = [], next_oid = 1, faults = []\<rparr>"
  have reach: "?db = serve_all ?rs0 (Some (empty_store []))"
    by (simp add: run_defs)
  have run: "create_order ?body ?db =
      (Inr \<lparr>r_order_id = 1, r_status = ''new''\<rparr>,
       Some \<lparr>cart_coll = [(0, \<lparr>user_id = ''u1'', items = []\<rparr>)],
                 order_coll =
                   [(1, \<lparr>order_user_id = ''u1'',
                         order_items = [[(''product_id'', JStr ''p1''), (''qty'', JInt 5), (''price'', JInt 10)]],
                         total = 50, status = ''new'', payment_method = ''cod'',
                         address = [(''city'', JStr ''Bandung'')]\<rparr>)],
                 next_oid = 2, faults = []\<rparr>)"
    by (simp add: run_defs)
  from orders_immutable[OF reach run,
      of "[AddItem \<lparr>cip_user_id = ''u1'', cip_product_id = ''p2'', cip_qty = 1\<rparr>,
           CreateOrder \<lparr>cop_user_id = ''u1'', cop_items = [], cop_total = 7,
                        cop_payment_method = ''card'', cop_address = []\<rparr>,
           GetCart ''u1'']"]
  show ?thesis
    by simp
qed

subsection \<open>The total of an order\<close>

text \<open>
  Claim C9 as stated fails: \<^verbatim>\<open>total: float\<close> has no bound in the request model nor in
  the \<^verbatim>\<open>Order\<close> model, and an order with total \<open>-5\<close> is accepted and persisted.
\<close>

theorem order_total_counterexample:
  "create_order
     \<lparr>cop_user_id = ''u1'', cop_items = [], cop_total = - 5, cop_payment_method = ''cod'',
      cop_address = []\<rparr> (Some (empty_store [])) =
   (Inr \<lparr>r_order_id = 0, r_status = ''new''\<rparr>,
    Some \<lparr>cart_coll = [(1, \<lparr>user_id = ''u1'', items = []\<rparr>)],
           order_coll =
             [(0, \<lparr>order_user_id = ''u1'', order_items = [], total = - 5, status = ''new'',
                   payment_method = ''cod'', address = []\<rparr>)],
           next_oid = 2, faults = []\<rparr>) \<and>
   \<not> 0 \<le> total \<lparr>order_user_id = ''u1'', order_items = [], total = - 5, status = ''new'',
                  payment_method = ''cod'', address = []\<rparr>"
  by (simp add: run_defs)

text \<open>
  Claim C9, as amended. The order that an accepted \<^verbatim>\<open>create_order\<close> persists carries
  the total of the request unchanged, whatever its sign; so the persisted total is
  non-negative exactly when the total supplied by the caller is.
\<close>

theorem create_order_total_as_given:
  assumes run: "create_order body db = (Inr resp, db')"
  shows "\<exists>s' ord. db' = Some s' \<and> last (order_coll s') = (r_order_id resp, ord) \<and>
           (r_order_id resp, ord) \<in> set (order_coll s') \<and>
           total ord = cop_total body \<and> (0 \<le> total ord \<longleftrightarrow> 0 \<le> cop_total body)"
proof -
  from create_order_success[OF run] obtain s :: database and s' :: database where
    "db' = Some s'" "resp = \<lparr>r_order_id = next_oid s, r_status = ''new''\<rparr>"
    "order_coll s' =
       order_coll s @
         [(next_oid s,
           OrderSchema (cop_user_id body) (cop_items body) (cop_total body)
             (cop_payment_method body) (cop_address body))]"
    by blast
  then show ?thesis
    by (simp add: OrderSchema_def)
qed

theorem create_order_total_as_given_witness:
  "\<exists>s' ord.
     create_order
       \<lparr>cop_user_id = ''u1'', cop_items = [], cop_total = 50, cop_payment_method = ''cod'',
        cop_address = []\<rparr> (Some (empty_store [])) =
       (Inr \<lparr>r_order_id = 0, r_status = ''new''\<rparr>, Some s') \<and>
     last (order_coll s') = (0, ord) \<and> total ord = 50"
proof -
  let ?body = "\<lparr>cop_user_id = ''u1'', cop_items = [], cop_total = 50, cop_payment_method = ''cod'',
        cop_address = []\<rparr>"
  have "available 2 (empty_store [])"
    by (simp add: available_def empty_store_def)
  from create_order_available[OF this, of ?body] obtain resp db' where
    run: "create_order ?body (Some (empty_store [])) = (Inr resp, db')"
    by blast
  then have resp: "resp = \<lparr>r_order_id = 0, r_status = ''new''\<rparr>"
    by (simp add: run_defs)
  from create_order_total_as_given[OF run] run resp show ?thesis
    by auto
qed

subsection \<open>Two adds at once\<close>

text \<open>Left alone, the two steps of a request are \<^verbatim>\<open>add_to_cart\<close> itself.\<close>

lemma add_to_cart_as_steps:
  "add_to_cart body (Some s) =
     (case add_step body (add_step body (Reading, s)) of
        (Finished r, s') \<Rightarrow> (r, Some s')
      | (p, s') \<Rightarrow> (Inl TypeError, None))"
  by (auto simp: add_to_cart_def split: prod.splits sum.splits)

lemma add_read_available:
  assumes "available (Suc n) s"
  shows "add_read body s =
           (Inr (case cart_of (cip_user_id body) s of
                   None \<Rightarrow> (None, \<lparr>user_id = cip_user_id body, items = []\<rparr>)
                 | Some d \<Rightarrow> (Some (fst d), snd d)),
            s\<lparr>faults := tl (faults s)\<rparr>)"
  using store_call_available[OF assms]
  by (simp add: add_read_def find_one_def cart_of_def split: option.splits)

lemma add_write_available:
  assumes "available (Suc n) s"
    and "fst c = None \<or> fst c = map_option fst (cart_of (cip_user_id body) s)"
  shows "add_write body c s =
           (Inr (),
            case cart_of (cip_user_id body) s of
              None \<Rightarrow>
                (case fst c of
                   None \<Rightarrow>
                     s\<lparr>faults := tl (faults s),
                       cart_coll := cart_coll s @ [(next_oid s, \<lparr>user_id = user_id (snd c), items = items (snd c)\<rparr>)],
                       next_oid := Suc (next_oid s)\<rparr>
                 | Some i \<Rightarrow>
                     s\<lparr>faults := tl (faults s),
                       cart_coll := cart_coll s @ [(i, \<lparr>user_id = user_id (snd c), items = items (snd c)\<rparr>)]\<rparr>)
            | Some d \<Rightarrow>
                s\<lparr>faults := tl (faults s),
                  cart_coll :=
                    update_first (cip_user_id body)
                      \<lparr>set_oid = fst c, set_user_id = Some (user_id (snd c)), set_items = items (snd c)\<rparr>
                      (cart_coll s)\<rparr>)"
  using store_call_available[OF assms(1)] assms(2)
  by (auto simp: add_write_def update_one_def cart_of_def apply_set_def split: option.splits)

lemma complete_cases:
  assumes "complete sch"
  shows "sch = [False, False, True, True] \<or> sch = [True, True, False, False] \<or>
         sch = [False, True, False, True] \<or> sch = [False, True, True, False] \<or>
         sch = [True, False, False, True] \<or> sch = [True, False, True, False]"
proof -
  from assms have "length sch = 4" by (simp add: complete_def)
  then obtain a b c d where sch: "sch = [a, b, c, d]"
    by (auto simp: numeral_eq_Suc length_Suc_conv)
  from assms show ?thesis
    unfolding sch complete_def
    by (cases a; cases b; cases c; cases d) simp_all
qed


lemma step_read:
  assumes "available (Suc n) s"
  shows "\<exists>s'. add_step body (Reading, s) =
            (Writing (add_merge body
               (case cart_of (cip_user_id body) s of
                  None \<Rightarrow> (None, \<lparr>user_id = cip_user_id body, items = []\<rparr>)
                | Some d \<Rightarrow> (Some (fst d), snd d))), s') \<and>
          cart_coll s' = cart_coll s \<and> next_oid s' = next_oid s \<and> available n s'"
  using add_read_available[OF assms, of body] available_drop[OF assms]
  by simp

lemma step_write:
  assumes "available (Suc n) s"
    and "fst c = None \<or> fst c = map_option fst (cart_of (cip_user_id body) s)"
  shows "\<exists>s'. add_step body (Writing c, s) = (Finished (Inr ()), s') \<and> available n s' \<and>
          cart_coll s' =
            (case cart_of (cip_user_id body) s of
               None \<Rightarrow>
                 cart_coll s @
                   [(case fst c of None \<Rightarrow> next_oid s | Some i \<Rightarrow> i,
                     \<lparr>user_id = user_id (snd c), items = items (snd c)\<rparr>)]
             | Some d \<Rightarrow>
                 update_first (cip_user_id body)
                   \<lparr>set_oid = fst c, set_user_id = Some (user_id (snd c)), set_items = items (snd c)\<rparr>
                   (cart_coll s))"
  using add_write_available[OF assms, of ] available_drop[OF assms(1)]
  by (auto simp: available_def split: option.splits)

lemma first_write:
  assumes fresh: "cart_of (cip_user_id body) s = None" and av: "available (Suc n) s"
  shows "\<exists>s'. add_step body
                 (Writing (None, \<lparr>user_id = cip_user_id body,
                    items = [\<lparr>product_id = cip_product_id body, qty = cip_qty body\<rparr>]\<rparr>), s) =
               (Finished (Inr ()), s') \<and> available n s' \<and>
          cart_of (cip_user_id body) s' =
            Some (next_oid s, \<lparr>user_id = cip_user_id body,
                    items = [\<lparr>product_id = cip_product_id body, qty = cip_qty body\<rparr>]\<rparr>)"
proof -
  let ?r = "\<lparr>user_id = cip_user_id body,
              items = [\<lparr>product_id = cip_product_id body, qty = cip_qty body\<rparr>]\<rparr>"
  let ?c = "(None, ?r)"
  from step_write[OF av, of ?c body] fresh obtain s' where
    s': "add_step body (Writing ?c, s) = (Finished (Inr ()), s')" "available n s'"
      "cart_coll s' = cart_coll s @ [(next_oid s, ?r)]"
    by auto
  from fresh have "find (matches (cip_user_id body)) (cart_coll s @ [(next_oid s, ?r)])
      = Some (next_oid s, ?r)"
    unfolding cart_of_def by (rule find_append_new) (simp add: matches_def)
  with s' show ?thesis
    by (auto simp: cart_of_def)
qed

lemma second_write:
  assumes cart: "cart_of (cip_user_id body) s = Some (i, c)" and av: "available (Suc n) s"
    and oid: "j = None \<or> j = Some i"
  shows "\<exists>s'. add_step body (Writing (j, \<lparr>user_id = cip_user_id body, items = its\<rparr>), s) =
               (Finished (Inr ()), s') \<and> available n s' \<and>
          cart_of (cip_user_id body) s' = Some (i, \<lparr>user_id = cip_user_id body, items = its\<rparr>)"
proof -
  let ?c = "(j, \<lparr>user_id = cip_user_id body, items = its\<rparr>)"
  let ?u = "\<lparr>set_oid = j, set_user_id = Some (cip_user_id body), set_items = its\<rparr>"
  from step_write[OF av, of ?c body] cart oid obtain s' where
    s': "add_step body (Writing ?c, s) = (Finished (Inr ()), s')" "available n s'"
      "cart_coll s' = update_first (cip_user_id body) ?u (cart_coll s)"
    by auto
  from cart have f: "find (matches (cip_user_id body)) (cart_coll s) = Some (i, c)"
    by (simp add: cart_of_def)
  have "matches (cip_user_id body) (apply_set ?u (i, c))"
    by (simp add: matches_def apply_set_def)
  from find_update_first[OF f this] s' show ?thesis
    by (auto simp: cart_of_def apply_set_def)
qed

lemma serial_trace:
  assumes fresh: "cart_of (cip_user_id body) s = None" and av: "available 4 s"
  shows "\<exists>c1 c2 sa sb sc sd.
          add_step body (Reading, s) = (Writing c1, sa) \<and>
          add_step body (Writing c1, sa) = (Finished (Inr ()), sb) \<and>
          add_step body (Reading, sb) = (Writing c2, sc) \<and>
          add_step body (Writing c2, sc) = (Finished (Inr ()), sd) \<and>
          cart_of (cip_user_id body) sd =
            Some (next_oid s, \<lparr>user_id = cip_user_id body,
                    items = [\<lparr>product_id = cip_product_id body, qty = cip_qty body + cip_qty body\<rparr>]\<rparr>)"
proof -
  let ?uid = "cip_user_id body"
  let ?it = "\<lparr>product_id = cip_product_id body, qty = cip_qty body\<rparr>"
  let ?c1 = "(None, \<lparr>user_id = ?uid, items = [?it]\<rparr>)"
  let ?c2 = "(Some (next_oid s), \<lparr>user_id = ?uid,
                items = [\<lparr>product_id = cip_product_id body, qty = cip_qty body + cip_qty body\<rparr>]\<rparr>)"
  from av have "available (Suc 3) s" by simp
  from step_read[OF this, of body] fresh obtain sa where
    sa: "add_step body (Reading, s) = (Writing ?c1, sa)" "cart_coll sa = cart_coll s"
      "next_oid sa = next_oid s" "available 3 sa"
    by (auto simp: add_merge_def upsert_product_def)
  from sa(2) fresh have fa: "cart_of ?uid sa = None" by (simp add: cart_of_def)
  from sa(4) have "available (Suc 2) sa" by (simp add: numeral_3_eq_3)
  from first_write[OF fa this] sa(3) obtain sb where
    sb: "add_step body (Writing ?c1, sa) = (Finished (Inr ()), sb)" "available 2 sb"
      "cart_of ?uid sb = Some (next_oid s, \<lparr>user_id = ?uid, items = [?it]\<rparr>)"
    by auto
  from sb(2) have "available (Suc 1) sb" by (simp add: numeral_2_eq_2)
  from step_read[OF this, of body] sb(3) obtain sc where
    sc: "add_step body (Reading, sb) = (Writing ?c2, sc)" "cart_coll sc = cart_coll sb"
      "available 1 sc"
    by (auto simp: add_merge_def upsert_product_def)
  from sc(2) sb(3) have fc: "cart_of ?uid sc = Some (next_oid s, \<lparr>user_id = ?uid, items = [?it]\<rparr>)"
    by (simp add: cart_of_def)
  from sc(3) have "available (Suc 0) sc" by simp
  from second_write[OF fc this, of "Some (next_oid s)"] obtain sd where
    sd: "add_step body (Writing ?c2, sc) = (Finished (Inr ()), sd)"
      "cart_of ?uid sd = Some (next_oid s, snd ?c2)"
    by auto
  from sa(1) sb(1) sc(1) sd show ?thesis
    by (intro exI[of _ ?c1] exI[of _ ?c2] exI[of _ sa] exI[of _ sb] exI[of _ sc] exI[of _ sd]) simp
qed

lemma overlapped_trace:
  assumes fresh: "cart_of (cip_user_id body) s = None" and av: "available 4 s"
  shows "\<exists>c1 sa sb sc sd.
          add_step body (Reading, s) = (Writing c1, sa) \<and>
          add_step body (Reading, sa) = (Writing c1, sb) \<and>
          add_step body (Writing c1, sb) = (Finished (Inr ()), sc) \<and>
          add_step body (Writing c1, sc) = (Finished (Inr ()), sd) \<and>
          cart_of (cip_user_id body) sd =
            Some (next_oid s, \<lparr>user_id = cip_user_id body,
                    items = [\<lparr>product_id = cip_product_id body, qty = cip_qty body\<rparr>]\<rparr>)"
proof -
  let ?uid = "cip_user_id body"
  let ?it = "\<lparr>product_id = cip_product_id body, qty = cip_qty body\<rparr>"
  let ?c1 = "(None, \<lparr>user_id = ?uid, items = [?it]\<rparr>)"
  from av have "available (Suc 3) s" by simp
  from step_read[OF this, of body] fresh obtain sa where
    sa: "add_step body (Reading, s) = (Writing ?c1, sa)" "cart_coll sa = cart_coll s"
      "next_oid sa = next_oid s" "available 3 sa"
    by (auto simp: add_merge_def upsert_product_def)
  from sa(2) fresh have fa: "cart_of ?uid sa = None" by (simp add: cart_of_def)
  from sa(4) have "available (Suc 2) sa" by (simp add: numeral_3_eq_3)
  from step_read[OF this, of body] fa obtain sb where
    sb: "add_step body (Reading, sa) = (Writing ?c1, sb)" "cart_coll sb = cart_coll sa"
      "next_oid sb = next_oid sa" "available 2 sb"
    by (auto simp: add_merge_def upsert_product_def)
  from sb(2) fa have fb: "cart_of ?uid sb = None" by (simp add: cart_of_def)
  from sb(4) have "available (Suc 1) sb" by (simp add: numeral_2_eq_2)
  from first_write[OF fb this] sa(3) sb(3) obtain sc where
    sc: "add_step body (Writing ?c1, sb) = (Finished (Inr ()), sc)" "available 1 sc"
      "cart_of ?uid sc = Some (next_oid s, \<lparr>user_id = ?uid, items = [?it]\<rparr>)"
    by auto
  from sc(2) have "available (Suc 0) sc" by simp
  from second_write[OF sc(3) this, of None] obtain sd where
    sd: "add_step body (Writing ?c1, sc) = (Finished (Inr ()), sd)"
      "cart_of ?uid sd = Some (next_oid s, snd ?c1)"
    by auto
  from sa(1) sb(1) sc(1) sd show ?thesis
    by (intro exI[of _ ?c1] exI[of _ sa] exI[of _ sb] exI[of _ sc] exI[of _ sd]) simp
qed

text \<open>
  Claim C10, as amended. Two adds of the same product by the same user against a store
  in which the user has no cart, with no store call failing: whatever the order of their
  four store calls, both return and the user's cart is one document with one line item
  for the product. Its quantity is the sum of the two, 2 for two adds of 1, when one
  request returns before the other starts. When the calls overlap, both requests read
  the absent cart, the later write replaces the earlier, and the quantity is that of one
  add alone, 1 for two adds of 1.
\<close>

theorem overlapping_adds:
  assumes fresh: "cart_of (cip_user_id body) s = None" and av: "available 4 s"
    and sch: "complete sch"
  shows "\<exists>s'. run_two body body sch (Reading, Reading, s) =
                (Finished (Inr ()), Finished (Inr ()), s') \<and>
          cart_of (cip_user_id body) s' =
            Some (next_oid s,
                  \<lparr>user_id = cip_user_id body,
                   items = [\<lparr>product_id = cip_product_id body,
                             qty = (if serial sch then cip_qty body + cip_qty body
                                    else cip_qty body)\<rparr>]\<rparr>)"
proof (cases "serial sch")
  case True
  from serial_trace[OF fresh av] obtain c1 c2 sa sb sc sd where
    "add_step body (Reading, s) = (Writing c1, sa)"
    "add_step body (Writing c1, sa) = (Finished (Inr ()), sb)"
    "add_step body (Reading, sb) = (Writing c2, sc)"
    "add_step body (Writing c2, sc) = (Finished (Inr ()), sd)"
    "cart_of (cip_user_id body) sd =
       Some (next_oid s, \<lparr>user_id = cip_user_id body,
          items = [\<lparr>product_id = cip_product_id body, qty = cip_qty body + cip_qty body\<rparr>]\<rparr>)"
    by blast
  with True show ?thesis
    by (auto simp: serial_def)
next
  case False
  from overlapped_trace[OF fresh av] obtain c1 sa sb sc sd where
    "add_step body (Reading, s) = (Writing c1, sa)"
    "add_step body (Reading, sa) = (Writing c1, sb)"
    "add_step body (Writing c1, sb) = (Finished (Inr ()), sc)"
    "add_step body (Writing c1, sc) = (Finished (Inr ()), sd)"
    "cart_of (cip_user_id body) sd =
       Some (next_oid s, \<lparr>user_id = cip_user_id body,
          items = [\<lparr>product_id = cip_product_id body, qty = cip_qty body\<rparr>]\<rparr>)"
    by blast
  with False complete_cases[OF sch] show ?thesis
    by (auto simp: serial_def)
qed


theorem overlapping_adds_witness:
  "\<exists>s'. run_two \<lparr>cip_user_id = ''u1'', cip_product_id = ''p1'', cip_qty = 1\<rparr>
            \<lparr>cip_user_id = ''u1'', cip_product_id = ''p1'', cip_qty = 1\<rparr>
            [False, False, True, True] (Reading, Reading, empty_store []) =
          (Finished (Inr ()), Finished (Inr ()), s') \<and>
        cart_of ''u1'' s' =
          Some (0, \<lparr>user_id = ''u1'', items = [\<lparr>product_id = ''p1'', qty = 2\<rparr>]\<rparr>)"
proof -
  let ?body = "\<lparr>cip_user_id = ''u1'', cip_product_id = ''p1'', cip_qty = 1\<rparr>"
  have fresh: "cart_of (cip_user_id ?body) (empty_store []) = None"
    by (simp add: cart_of_def empty_store_def)
  have av: "available 4 (empty_store [])"
    by (simp add: available_def empty_store_def)
  have sch: "complete [False, False, True, True]"
    by (simp add: complete_def)
  from overlapping_adds[OF fresh av sch] show ?thesis
    by (simp add: serial_def empty_store_def)
qed

text \<open>
  Claim C10 as stated fails on the source: when both requests read before either
  writes, both see no cart, and the store ends with quantity 1.
\<close>

theorem lost_update_counterexample:
  "run_two \<lparr>cip_user_id = ''u1'', cip_product_id = ''p1'', cip_qty = 1\<rparr>
     \<lparr>cip_user_id = ''u1'', cip_product_id = ''p1'', cip_qty = 1\<rparr>
     [False, True, False, True] (Reading, Reading, empty_store []) =
   (Finished (Inr ()), Finished (Inr ()),
    \<lparr>cart_coll = [(0, \<lparr>user_id = ''u1'', items = [\<lparr>product_id = ''p1'', qty = 1\<rparr>]\<rparr>)],
     order_coll = [], next_oid = 1, faults = []\<rparr>)"
  by (simp add: run_defs)

end
